theory Spec2Isabelle
  imports Complex_Main "HOL-Library.Word"
begin

section \<open>Data model\<close>

text \<open>
  The stage tag of \<^verbatim>\<open>StitchProgress\<close> (useStitcher.ts, line 5), in the order of the
  union type.
\<close>

datatype StitchStage =
  Loading | Preprocessing | Detecting | Matching | Warping | Blending | Complete

text \<open>
  \<^verbatim>\<open>StitchProgress\<close> (useStitcher.ts, lines 4-8). The JavaScript number \<^verbatim>\<open>progress\<close> is
  kept as an exact rational: the rounding of the double arithmetic is left out.
\<close>

record StitchProgress =
  stage :: StitchStage
  progress :: rat
  message :: string

text \<open>
  A thrown JavaScript value: an \<^verbatim>\<open>Error\<close> object with its message, or a value that is
  not an \<^verbatim>\<open>Error\<close> (OpenCV.js throws such values from inside the library).
\<close>

datatype js_exn = Error string | CvException

text \<open>
  An OpenCV matrix of type \<^verbatim>\<open>CV_8UC4\<close>: its dimensions and its four-channel pixels, read
  at row \<open>y\<close> and column \<open>x\<close>. Only the pixels with \<open>y < rows\<close> and \<open>x < cols\<close> belong
  to the image.
\<close>

type_synonym pixel = "8 word \<times> 8 word \<times> 8 word \<times> 8 word"

record Mat =
  rows :: nat
  cols :: nat
  px :: "nat \<Rightarrow> nat \<Rightarrow> pixel"

text \<open>
  What happens to one frame in the loading loop (useStitcher.ts, lines 42-60): the image
  loads and \<^verbatim>\<open>cv.imread\<close> gives a matrix, the image fires \<^verbatim>\<open>onerror\<close>, or
  \<^verbatim>\<open>cv.imread\<close> throws.
\<close>

datatype decode = Decoded Mat | LoadFailed | ImreadThrew js_exn

text \<open>
  The parts of the browser and of the OpenCV.js object that \<^verbatim>\<open>stitchFrames\<close> uses; they
  are not code of the repository and are parameters of the model.
  \<^item> \<open>isLoaded\<close>: \<^verbatim>\<open>isLoaded && cv\<close>;
  \<^item> \<open>loadImage\<close>: decoding a frame's data URL and reading it with \<^verbatim>\<open>cv.imread\<close>;
  \<^item> \<open>Stitcher\<close>: \<open>None\<close> when \<^verbatim>\<open>cv.Stitcher_create && cv.Stitcher_PANORAMA !== undefined\<close>
    is false, otherwise what \<^verbatim>\<open>stitcher.stitch(images, pano)\<close> returns and stores in
    \<^verbatim>\<open>pano\<close>;
  \<^item> \<open>Stitcher_OK\<close>: the constant \<^verbatim>\<open>cv.Stitcher_OK\<close>;
  \<^item> \<open>resize\<close>: \<^verbatim>\<open>cv.resize(src, dst, new cv.Size(width, height))\<close>, giving \<^verbatim>\<open>dst\<close>
    when the call returns;
  \<^item> \<open>resizeThrows\<close>: the exception that this call of \<^verbatim>\<open>cv.resize\<close> throws, \<open>None\<close> when
    it returns;
  \<^item> \<open>imencode\<close>: \<open>None\<close> when the build of OpenCV.js has no function \<^verbatim>\<open>cv.imencode\<close>,
    otherwise what \<^verbatim>\<open>cv.imencode('.png', m)\<close> does: it throws, or it returns the
    bytes read by \<^verbatim>\<open>new Uint8Array(encoded.data)\<close>;
  \<^item> \<open>maxArguments\<close>: the largest number of arguments that the JavaScript engine
    accepts in one call;
  \<^item> \<open>btoa\<close>: the browser's \<^verbatim>\<open>btoa\<close>, on a string of characters below 256.

  The call of the stitcher is taken to return.
\<close>

record cv_env =
  isLoaded :: bool
  loadImage :: "string \<Rightarrow> decode"
  Stitcher :: "(Mat list \<Rightarrow> int \<times> Mat) option"
  Stitcher_OK :: int
  resize :: "Mat \<Rightarrow> nat \<Rightarrow> nat \<Rightarrow> Mat"
  resizeThrows :: "Mat \<Rightarrow> nat \<Rightarrow> nat \<Rightarrow> js_exn option"
  imencode :: "(Mat \<Rightarrow> js_exn + 8 word list) option"
  maxArguments :: nat
  btoa :: "string \<Rightarrow> string"

text \<open>The React state of the hook (useStitcher.ts, lines 19-21).\<close>

record hook_state =
  isStitching :: bool
  progressState :: "StitchProgress option"
  errorState :: "string option"

text \<open>
  One call of \<^verbatim>\<open>stitchFrames\<close>: the value the promise resolves to or the exception it
  rejects with, the arguments of the \<^verbatim>\<open>setProgress\<close> calls in order, and the hook state
  when the promise settles.
\<close>

record stitch_run =
  returned :: "js_exn + string"
  emitted :: "StitchProgress list"
  hook :: hook_state

section \<open>Template literals\<close>

text \<open>The decimal numeral that a template literal puts in place of an integer.\<close>

definition digit_char :: "nat \<Rightarrow> char" where
  "digit_char d = ''0123456789'' ! d"

function string_of_nat :: "nat \<Rightarrow> string" where
  "string_of_nat n =
     (if n < 10 then [digit_char n]
      else string_of_nat (n div 10) @ [digit_char (n mod 10)])"
  by pat_completeness auto
termination
  by (relation "measure (\<lambda>n. n)") auto

declare string_of_nat.simps [simp del]

definition string_of_int :: "int \<Rightarrow> string" where
  "string_of_int k =
     (if k < 0 then CHR ''-'' # string_of_nat (nat (- k)) else string_of_nat (nat k))"

section \<open>The stitching hook (useStitcher.ts)\<close>

definition mkProgress :: "StitchStage \<Rightarrow> rat \<Rightarrow> string \<Rightarrow> StitchProgress" where
  "mkProgress s p m = \<lparr>stage = s, progress = p, message = m\<rparr>"

text \<open>
  Lines 48-52: the progress set when frame \<open>i\<close> of \<open>n\<close> has been read; lines 109-113: the
  progress set when image \<open>i\<close> of \<open>n\<close> has been copied.
\<close>

definition loadedProgress :: "nat \<Rightarrow> nat \<Rightarrow> StitchProgress" where
  "loadedProgress i n =
     mkProgress Preprocessing (10 + (of_nat i / of_nat n) * 20)
       (''Loading frame '' @ string_of_nat (i + 1) @ ''/'' @ string_of_nat n @ ''...'')"

definition placedProgress :: "nat \<Rightarrow> nat \<Rightarrow> StitchProgress" where
  "placedProgress i n =
     mkProgress Warping (50 + (of_nat i / of_nat n) * 30)
       (''Stitching frame '' @ string_of_nat (i + 1) @ ''/'' @ string_of_nat n @ ''...'')"

text \<open>
  The loading loop, lines 41-61, from index \<open>i\<close> on: \<open>fs\<close> are the frames \<open>i\<close>, \<open>i + 1\<close>,
  ... still to load, \<open>n\<close> is \<^verbatim>\<open>frames.length\<close> and \<open>images\<close> the matrices pushed so far.
  The loop stops at the first frame whose promise rejects.
\<close>

fun loadFrames ::
  "cv_env \<Rightarrow> string list \<Rightarrow> nat \<Rightarrow> nat \<Rightarrow> Mat list \<Rightarrow> StitchProgress list \<times> (js_exn + Mat list)"
where
  "loadFrames cv [] i n images = ([], Inr images)"
| "loadFrames cv (f # fs) i n images =
     (case loadImage cv f of
        Decoded mat \<Rightarrow>
          (let (evs, r) = loadFrames cv fs (Suc i) n (images @ [mat])
           in (loadedProgress i n # evs, r))
      | ImreadThrew err \<Rightarrow> ([], Inl err)
      | LoadFailed \<Rightarrow> ([], Inl (Error (''Failed to load frame '' @ string_of_nat (i + 1)))))"

text \<open>The dimensions of the canvas, lines 89-95: two accumulators over \<^verbatim>\<open>images.forEach\<close>.\<close>

definition totalWidth :: "Mat list \<Rightarrow> nat" where
  "totalWidth images = foldl (\<lambda>w img. w + cols img) 0 images"

definition maxHeight :: "Mat list \<Rightarrow> nat" where
  "maxHeight images = foldl (\<lambda>h img. max h (rows img)) 0 images"

text \<open>
  Lines 98-99: \<^verbatim>\<open>new cv.Mat(maxHeight, totalWidth, cv.CV_8UC4)\<close> filled by
  \<^verbatim>\<open>setTo(new cv.Scalar(0, 0, 0, 255))\<close>.
\<close>

definition canvas :: "Mat list \<Rightarrow> Mat" where
  "canvas images =
     \<lparr>rows = maxHeight images, cols = totalWidth images, px = (\<lambda>y x. (0, 0, 0, 255))\<rparr>"

text \<open>
  Lines 104-105: \<^verbatim>\<open>result.roi(new cv.Rect(xOffset, 0, img.cols, img.rows))\<close> and
  \<^verbatim>\<open>img.copyTo(roi)\<close>. OpenCV rejects a rectangle that does not lie inside the matrix;
  otherwise the pixels of the rectangle are overwritten with the image and the others
  stay.
\<close>

definition copyToRoi :: "Mat \<Rightarrow> Mat \<Rightarrow> nat \<Rightarrow> js_exn + Mat" where
  "copyToRoi img result xOffset =
     (if xOffset + cols img \<le> cols result \<and> rows img \<le> rows result
      then Inr (result\<lparr>px :=
             (\<lambda>y x. if y < rows img \<and> xOffset \<le> x \<and> x < xOffset + cols img
                    then px img y (x - xOffset) else px result y x)\<rparr>)
      else Inl CvException)"

text \<open>
  The placement loop, lines 102-114, from index \<open>i\<close> on: \<open>imgs\<close> are the images \<open>i\<close>,
  \<open>i + 1\<close>, ... still to place and \<open>n\<close> is \<^verbatim>\<open>images.length\<close>.
\<close>

fun placeFrames ::
  "Mat list \<Rightarrow> nat \<Rightarrow> nat \<Rightarrow> nat \<Rightarrow> Mat \<Rightarrow> StitchProgress list \<times> (js_exn + Mat)"
where
  "placeFrames [] i n xOffset result = ([], Inr result)"
| "placeFrames (img # imgs) i n xOffset result =
     (case copyToRoi img result xOffset of
        Inl err \<Rightarrow> ([], Inl err)
      | Inr result' \<Rightarrow>
          (let (evs, r) = placeFrames imgs (Suc i) n (xOffset + cols img) result'
           in (placedProgress i n # evs, r)))"

text \<open>The fallback branch, lines 83-114: horizontal concatenation.\<close>

definition concatFrames :: "Mat list \<Rightarrow> StitchProgress list \<times> (js_exn + Mat)" where
  "concatFrames images =
     (let (evs, r) = placeFrames images 0 (length images) 0 (canvas images)
      in (mkProgress Warping 50 ''Arranging frames...'' # evs, r))"

text \<open>The branch that uses \<^verbatim>\<open>cv.Stitcher\<close>, lines 72-81.\<close>

definition featureStitch ::
  "(Mat list \<Rightarrow> int \<times> Mat) \<Rightarrow> int \<Rightarrow> Mat list \<Rightarrow> StitchProgress list \<times> (js_exn + Mat)"
where
  "featureStitch stitch ok images =
     (let (status, pano) = stitch images
      in if status = ok then ([], Inr pano)
         else ([], Inl (Error (''Stitching failed with status: '' @ string_of_int status))))"

text \<open>Lines 124-129: the resize to a 2:1 image.\<close>

definition convertEquirect :: "cv_env \<Rightarrow> Mat \<Rightarrow> Mat" where
  "convertEquirect cv result =
     (let targetWidth = cols result;
          targetHeight = targetWidth div 2
      in resize cv result targetWidth targetHeight)"

text \<open>
  Line 134: \<^verbatim>\<open>String.fromCharCode(...new Uint8Array(encoded.data))\<close>. The spread passes
  every byte as one argument of the call, and the engine throws a \<^verbatim>\<open>RangeError\<close> when
  there are more bytes than it accepts as arguments; otherwise the result is the string
  of the characters with these codes.
\<close>

definition fromCharCodeSpread :: "cv_env \<Rightarrow> 8 word list \<Rightarrow> js_exn + string" where
  "fromCharCodeSpread cv bytes =
     (if length bytes > maxArguments cv
      then Inl (Error ''Maximum call stack size exceeded'')
      else Inr (map (\<lambda>b. char_of (unat b)) bytes))"

text \<open>
  Lines 131-136: the PNG data URL. The call of a function that the build does not have
  throws a \<^verbatim>\<open>TypeError\<close>.
\<close>

definition dataUrl :: "cv_env \<Rightarrow> Mat \<Rightarrow> js_exn + string" where
  "dataUrl cv equirect =
     (case imencode cv of
        None \<Rightarrow> Inl (Error ''cv.imencode is not a function'')
      | Some encode \<Rightarrow>
          (case encode equirect of
             Inl err \<Rightarrow> Inl err
           | Inr bytes \<Rightarrow>
               (case fromCharCodeSpread cv bytes of
                  Inl err \<Rightarrow> Inl err
                | Inr binary \<Rightarrow> Inr (''data:image/png;base64,'' @ btoa cv binary))))"

text \<open>
  Lines 124-143, what follows the last progress event: the resize, the encoding and the
  return of the data URL. An exception of any of these steps reaches the \<^verbatim>\<open>catch\<close> of
  lines 144-147.
\<close>

definition finishPanorama :: "cv_env \<Rightarrow> Mat \<Rightarrow> js_exn + string" where
  "finishPanorama cv result =
     (case resizeThrows cv result (cols result) (cols result div 2) of
        Some err \<Rightarrow> Inl err
      | None \<Rightarrow> dataUrl cv (convertEquirect cv result))"

text \<open>
  Lines 34-147, the body of \<^verbatim>\<open>stitchFrames\<close> after its two guards: the progress events
  and the result. The inner \<^verbatim>\<open>catch\<close> (lines 144-147) logs and throws the error again, so
  an error of either branch ends the run, and so does an error of the steps after the
  event of the stage \<^verbatim>\<open>complete\<close>, which is emitted before them.
\<close>

definition stitchBody :: "cv_env \<Rightarrow> string list \<Rightarrow> StitchProgress list \<times> (js_exn + string)" where
  "stitchBody cv frames =
     (let ev0 = [mkProgress Loading 0 ''Loading frames...'',
                 mkProgress Preprocessing 10 ''Preprocessing frames...''];
          (evs1, loaded) = loadFrames cv frames 0 (length frames) []
      in case loaded of
           Inl err \<Rightarrow> (ev0 @ evs1, Inl err)
         | Inr images \<Rightarrow>
             (let ev2 = [mkProgress Detecting 30 ''Detecting features...''];
                  (evs3, stitched) =
                     (case Stitcher cv of
                        Some stitch \<Rightarrow> featureStitch stitch (Stitcher_OK cv) images
                      | None \<Rightarrow> concatFrames images)
              in case stitched of
                   Inl err \<Rightarrow> (ev0 @ evs1 @ ev2 @ evs3, Inl err)
                 | Inr result \<Rightarrow>
                     (ev0 @ evs1 @ ev2 @ evs3 @
                        [mkProgress Blending 80 ''Blending seams...'',
                         mkProgress Complete 100 ''Complete!''],
                      finishPanorama cv result)))"

text \<open>Line 149: the message that \<^verbatim>\<open>setError\<close> receives.\<close>

fun errorMessage :: "js_exn \<Rightarrow> string" where
  "errorMessage (Error m) = m"
| "errorMessage CvException = ''Stitching failed''"

text \<open>
  \<^verbatim>\<open>stitchFrames\<close>, lines 23-156. The two guards throw before any state is set. After
  them the state is the one left by \<^verbatim>\<open>setError\<close> and by the \<^verbatim>\<open>finally\<close> block; the timer
  that clears the progress two seconds later is outside the model.
\<close>

definition stitchFrames :: "cv_env \<Rightarrow> string list \<Rightarrow> hook_state \<Rightarrow> stitch_run" where
  "stitchFrames cv frames st =
     (if \<not> isLoaded cv then
        \<lparr>returned = Inl (Error ''OpenCV not loaded''), emitted = [], hook = st\<rparr>
      else if length frames < 2 then
        \<lparr>returned = Inl (Error ''Need at least 2 frames to stitch''), emitted = [], hook = st\<rparr>
      else
        (let (evs, res) = stitchBody cv frames
         in \<lparr>returned = res, emitted = evs,
             hook = \<lparr>isStitching = False, progressState = Some (last evs),
                     errorState = (case res of Inl err \<Rightarrow> Some (errorMessage err)
                                   | Inr _ \<Rightarrow> None)\<rparr>\<rparr>))"

section \<open>The capture loop (PanoramaCapture.tsx)\<close>

text \<open>Lines 71-73: the capture parameters.\<close>

definition duration :: rat where
  "duration = 12000"

definition frameCount :: nat where
  "frameCount = 18"

definition interval :: "rat \<Rightarrow> nat \<Rightarrow> rat" where
  "interval d n = d / of_nat n"

text \<open>
  The state the loop works on: the local array \<^verbatim>\<open>capturedFrames\<close>, the React states
  \<^verbatim>\<open>frames\<close> and \<^verbatim>\<open>progress\<close>, and the time spent in \<^verbatim>\<open>setTimeout\<close> so far.
\<close>

record capture_state =
  capturedFrames :: "string list"
  framesState :: "string list"
  captureProgress :: rat
  waited :: rat

text \<open>
  Lines 77-89, from index \<open>i\<close> on, for a loop bound \<open>n\<close> and a total duration \<open>d\<close>.
  \<open>captureFrame i\<close> is what the \<open>i\<close>-th call of \<^verbatim>\<open>captureFrame()\<close> returns (\<open>None\<close> for
  \<^verbatim>\<open>null\<close>). The test \<^verbatim>\<open>if (frame)\<close> is JavaScript truthiness: \<^verbatim>\<open>null\<close> and the empty string
  fail it.
\<close>

function captureLoop ::
  "(nat \<Rightarrow> string option) \<Rightarrow> rat \<Rightarrow> nat \<Rightarrow> nat \<Rightarrow> capture_state \<Rightarrow> capture_state"
where
  "captureLoop captureFrame d n i s =
     (if i < n then
        (let s1 = (case captureFrame i of
                     None \<Rightarrow> s
                   | Some frame \<Rightarrow>
                       if frame = [] then s
                       else s\<lparr>capturedFrames := capturedFrames s @ [frame],
                              framesState := capturedFrames s @ [frame]\<rparr>);
             s2 = s1\<lparr>captureProgress := (of_nat (i + 1) / of_nat n) * 100\<rparr>;
             s3 = (if i < n - 1 then s2\<lparr>waited := waited s2 + interval d n\<rparr> else s2)
         in captureLoop captureFrame d n (Suc i) s3)
      else s)"
  by pat_completeness auto
termination
  by (relation "measure (\<lambda>(captureFrame, d, n, i, s). n - i)") auto

declare captureLoop.simps [simp del]

text \<open>Lines 59-60 and 75: the empty array and the reset states the loop starts from.\<close>

definition initialCapture :: capture_state where
  "initialCapture =
     \<lparr>capturedFrames = [], framesState = [], captureProgress = 0, waited = 0\<rparr>"

text \<open>The two callbacks of the component; \<^verbatim>\<open>startCapture\<close> ends in exactly one of them.\<close>

datatype callback = OnFramesCaptured "string list" | OnError string

text \<open>
  \<^verbatim>\<open>startCapture\<close>, lines 52-98, without the countdown: the guard on the camera, the
  loop from an empty array, and the check of the number of frames.
\<close>

definition startCapture :: "bool \<Rightarrow> (nat \<Rightarrow> string option) \<Rightarrow> callback" where
  "startCapture isActive captureFrame =
     (if \<not> isActive then OnError ''Camera not ready''
      else
        (let s = captureLoop captureFrame duration frameCount 0 initialCapture
         in if length (capturedFrames s) \<ge> 2 then OnFramesCaptured (capturedFrames s)
            else OnError ''Failed to capture enough frames''))"

section \<open>Notions of the specification\<close>

text \<open>
  A capture attempt is successful when it yields an image: a data URL, which is never the
  empty string.
\<close>

definition successful :: "string option \<Rightarrow> bool" where
  "successful r = (case r of None \<Rightarrow> False | Some frame \<Rightarrow> frame \<noteq> [])"

text \<open>
  What the documentation of \<^verbatim>\<open>cv.resize\<close> promises when a size is given: the output has
  that size.
\<close>

definition honoursSize :: "cv_env \<Rightarrow> bool" where
  "honoursSize cv \<longleftrightarrow>
     (\<forall>src w h. cols (resize cv src w h) = w \<and> rows (resize cv src w h) = h)"

text \<open>
  The column at which the fallback is to put image \<open>i\<close>: the sum of the widths of the
  images before it. Image \<open>i\<close> covers the pixel in row \<open>y\<close> and column \<open>x\<close> of the
  composite when the pixel lies in the rectangle of the image's size at that column and at
  row 0.
\<close>

definition xOffsetOf :: "Mat list \<Rightarrow> nat \<Rightarrow> nat" where
  "xOffsetOf images i = sum_list (map cols (take i images))"

definition covers :: "Mat list \<Rightarrow> nat \<Rightarrow> nat \<Rightarrow> nat \<Rightarrow> bool" where
  "covers images i y x \<longleftrightarrow>
     y < rows (images ! i) \<and> xOffsetOf images i \<le> x \<and>
     x < xOffsetOf images i + cols (images ! i)"

text \<open>The position of a stage in the order of the state machine.\<close>

fun stageIndex :: "StitchStage \<Rightarrow> nat" where
  "stageIndex Loading = 0"
| "stageIndex Preprocessing = 1"
| "stageIndex Detecting = 2"
| "stageIndex Matching = 3"
| "stageIndex Warping = 4"
| "stageIndex Blending = 5"
| "stageIndex Complete = 6"

text \<open>The stage and the percentage of each event of a list.\<close>

definition checkpoints :: "StitchProgress list \<Rightarrow> (StitchStage \<times> rat) list" where
  "checkpoints evs = map (\<lambda>e. (stage e, progress e)) evs"

text \<open>
  The checkpoint contract for one event of a run on \<open>n\<close> frames. The contract gives no
  percentage for the matching stage.
\<close>

definition checkpoint :: "nat \<Rightarrow> StitchProgress \<Rightarrow> bool" where
  "checkpoint n e =
     (case stage e of
        Loading \<Rightarrow> progress e = 0
      | Preprocessing \<Rightarrow>
          (\<exists>k<n. progress e = 10 + (of_nat k / of_nat n) * 20) \<and>
          10 \<le> progress e \<and> progress e \<le> 30
      | Detecting \<Rightarrow> progress e = 30
      | Matching \<Rightarrow> True
      | Warping \<Rightarrow>
          (\<exists>k<n. progress e = 50 + (of_nat k / of_nat n) * 30) \<and>
          50 \<le> progress e \<and> progress e \<le> 80
      | Blending \<Rightarrow> progress e = 80
      | Complete \<Rightarrow> progress e = 100)"

section \<open>Example inputs\<close>

text \<open>
  An image of one colour, an image whose pixels record their own position, and a
  nearest-neighbour resize.
\<close>

definition solid :: "nat \<Rightarrow> nat \<Rightarrow> pixel \<Rightarrow> Mat" where
  "solid h w p = \<lparr>rows = h, cols = w, px = (\<lambda>y x. p)\<rparr>"

definition gradient :: "nat \<Rightarrow> nat \<Rightarrow> Mat" where
  "gradient h w = \<lparr>rows = h, cols = w, px = (\<lambda>y x. (of_nat y, of_nat x, 0, 255))\<rparr>"

definition nearest :: "Mat \<Rightarrow> nat \<Rightarrow> nat \<Rightarrow> Mat" where
  "nearest src w h =
     \<lparr>rows = h, cols = w, px = (\<lambda>y x. px src ((y * rows src) div h) ((x * cols src) div w))\<rparr>"

text \<open>
  An encoder whose two bytes are the width and the height of the image, and a \<^verbatim>\<open>btoa\<close>
  that knows the Base64 text of the bytes 5 and 2 only.
\<close>

definition sizeBytes :: "Mat \<Rightarrow> js_exn + 8 word list" where
  "sizeBytes m = Inr [of_nat (cols m), of_nat (rows m)]"

definition smallBtoa :: "string \<Rightarrow> string" where
  "smallBtoa binary = (if binary = [char_of (5 :: nat), char_of (2 :: nat)] then ''BQI='' else [])"

text \<open>
  An engine in which \<^verbatim>\<open>cv.resize\<close> never throws, the frame \<open>''a''\<close> decodes to an image of 3 by 2 pixels, the frame
  \<open>''b''\<close> to a blue image of 2 by 1 pixels, and no other frame decodes.
\<close>

definition exampleImages :: "Mat list" where
  "exampleImages = [gradient 2 3, solid 1 2 (0, 0, 255, 255)]"

definition exampleCv :: "bool \<Rightarrow> (Mat list \<Rightarrow> int \<times> Mat) option \<Rightarrow> cv_env" where
  "exampleCv loaded st =
     \<lparr>isLoaded = loaded,
      loadImage = (\<lambda>f. if f = ''a'' then Decoded (gradient 2 3)
                      else if f = ''b'' then Decoded (solid 1 2 (0, 0, 255, 255))
                      else LoadFailed),
      Stitcher = st, Stitcher_OK = 0, resize = nearest, resizeThrows = (\<lambda>src w h. None),
      imencode = Some sizeBytes, maxArguments = 65535, btoa = smallBtoa\<rparr>"

text \<open>
  The same engine in a build without \<^verbatim>\<open>cv.imencode\<close>, and in a JavaScript engine that
  accepts one argument only.
\<close>

definition buildWithoutImencode :: cv_env where
  "buildWithoutImencode = (exampleCv True None)\<lparr>imencode := None\<rparr>"

definition oneArgumentEngine :: cv_env where
  "oneArgumentEngine = (exampleCv True None)\<lparr>maxArguments := 1\<rparr>"

text \<open>
  A stitcher that reports the status 1 (in OpenCV, too few images), and one that
  reports success with a panorama of 4 by 2 pixels.
\<close>

definition failingStitcher :: "Mat list \<Rightarrow> int \<times> Mat" where
  "failingStitcher images = (1, solid 0 0 (0, 0, 0, 0))"

definition workingStitcher :: "Mat list \<Rightarrow> int \<times> Mat" where
  "workingStitcher images = (0, gradient 2 4)"

definition idle :: hook_state where
  "idle = \<lparr>isStitching = False, progressState = None, errorState = None\<rparr>"

text \<open>A camera that is ready at the attempts 3 and 7 only, and one that is always ready.\<close>

definition twoShots :: "nat \<Rightarrow> string option" where
  "twoShots i = (if i = 3 then Some ''a'' else if i = 7 then Some ''b'' else None)"

definition oneShot :: "nat \<Rightarrow> string option" where
  "oneShot i = (if i = 3 then Some ''a'' else None)"

definition alwaysReady :: "nat \<Rightarrow> string option" where
  "alwaysReady i = Some (replicate (Suc i) CHR ''f'')"

section \<open>Properties of the capture loop\<close>

lemma successful_simps:
  "successful None = False" "successful (Some frame) = (frame \<noteq> [])"
  by (simp_all add: successful_def)

lemma captureLoop_frames:
  "map Some (capturedFrames (captureLoop captureFrame d n i s)) =
     map Some (capturedFrames s) @ filter successful (map captureFrame [i..<n])"
proof (induction "n - i" arbitrary: i s)
  case 0
  then show ?case by (subst captureLoop.simps) simp
next
  case (Suc k)
  then have lt: "i < n" and k: "k = n - Suc i" by simp_all
  have upt: "[i..<n] = i # [Suc i..<n]" using lt by (simp add: upt_conv_Cons)
  define s1 where "s1 = (case captureFrame i of None \<Rightarrow> s
      | Some frame \<Rightarrow> if frame = [] then s
          else s\<lparr>capturedFrames := capturedFrames s @ [frame],
                 framesState := capturedFrames s @ [frame]\<rparr>)"
  define s2 where "s2 = s1\<lparr>captureProgress := (of_nat (i + 1) / of_nat n) * 100\<rparr>"
  define s3 where "s3 = (if i < n - 1 then s2\<lparr>waited := waited s2 + interval d n\<rparr> else s2)"
  have unfold: "captureLoop captureFrame d n i s = captureLoop captureFrame d n (Suc i) s3"
    using lt by (subst captureLoop.simps) (simp add: s1_def s2_def s3_def Let_def)
  have frames3: "capturedFrames s3 = capturedFrames s1"
    by (simp add: s3_def s2_def)
  have frames1: "map Some (capturedFrames s1) =
      map Some (capturedFrames s) @ filter successful [captureFrame i]"
    by (cases "captureFrame i") (simp_all add: s1_def successful_simps)
  show ?case
    unfolding unfold Suc.hyps(1) [OF k] frames3 frames1 upt by simp
qed

lemma captured_from_start:
  "map Some (capturedFrames (captureLoop captureFrame d n 0 initialCapture)) =
     filter successful (map captureFrame [0..<n])"
  using captureLoop_frames [of captureFrame d n 0 initialCapture]
  by (simp add: initialCapture_def)

text \<open>
  C5. A capture run yields exactly the successful results of \<^verbatim>\<open>captureFrame\<close>, in the
  order of the attempts: the captured sequence is the list of the attempts' results with
  the unsuccessful ones filtered out, so an attempt that yields no image is skipped and
  not tried again. The sequence has at most as many frames as there were attempts, and as
  many when every attempt succeeds. This holds for every number of attempts and every
  duration, in particular for the 18 attempts in 12000 ms of \<^verbatim>\<open>startCapture\<close>.
\<close>

theorem capture_sequence:
  "map Some (capturedFrames (captureLoop captureFrame d n 0 initialCapture)) =
     filter successful (map captureFrame [0..<n]) \<and>
   length (capturedFrames (captureLoop captureFrame d n 0 initialCapture)) \<le> n \<and>
   ((\<forall>i<n. successful (captureFrame i)) \<longrightarrow>
      map Some (capturedFrames (captureLoop captureFrame d n 0 initialCapture)) =
        map captureFrame [0..<n] \<and>
      length (capturedFrames (captureLoop captureFrame d n 0 initialCapture)) = n)"
proof -
  let ?out = "capturedFrames (captureLoop captureFrame d n 0 initialCapture)"
  have eq: "map Some ?out = filter successful (map captureFrame [0..<n])"
    by (rule captured_from_start)
  have "length (map Some ?out) \<le> length (map captureFrame [0..<n])"
    unfolding eq by (rule length_filter_le)
  then have le: "length ?out \<le> n" by simp
  have all: "map Some ?out = map captureFrame [0..<n] \<and> length ?out = n"
    if "\<forall>i<n. successful (captureFrame i)"
  proof -
    from that have "filter successful (map captureFrame [0..<n]) = map captureFrame [0..<n]"
      by (simp add: filter_id_conv)
    with eq have m: "map Some ?out = map captureFrame [0..<n]" by simp
    then have "length (map Some ?out) = length (map captureFrame [0..<n])" by simp
    then have "length ?out = n" by simp
    with m show ?thesis by blast
  qed
  from eq le all show ?thesis by blast
qed

theorem capture_sequence_witness:
  "list_all successful (map alwaysReady [0..<frameCount]) \<and>
   length (capturedFrames (captureLoop alwaysReady duration frameCount 0 initialCapture)) = 18 \<and>
   map Some (capturedFrames (captureLoop twoShots duration frameCount 0 initialCapture)) =
     [Some ''a'', Some ''b'']"
proof -
  have h: "\<forall>i<frameCount. successful (alwaysReady i)"
    by (simp add: alwaysReady_def successful_simps)
  have two: "filter successful (map twoShots [0..<frameCount]) = [Some ''a'', Some ''b'']"
    by (simp add: frameCount_def twoShots_def successful_simps upt_rec)
  have h': "list_all successful (map alwaysReady [0..<frameCount])"
    by (simp add: list_all_iff alwaysReady_def successful_simps)
  show ?thesis
    using h h' capture_sequence [of alwaysReady duration frameCount]
      capture_sequence [of twoShots duration frameCount] two
    by (simp add: frameCount_def)
qed

text \<open>
  C6. With the camera active, so that the capture loop runs, \<^verbatim>\<open>startCapture\<close> hands the
  captured sequence to \<^verbatim>\<open>onFramesCaptured\<close> if and only if it has at least 2 frames;
  with fewer frames it calls \<^verbatim>\<open>onError\<close> with the message for too few frames and
  delivers no sequence.
\<close>

theorem capture_postcondition:
  assumes "isActive"
  shows "let fs = capturedFrames (captureLoop captureFrame duration frameCount 0 initialCapture)
     in (2 \<le> length fs \<longrightarrow> startCapture isActive captureFrame = OnFramesCaptured fs) \<and>
        (length fs < 2 \<longrightarrow>
           startCapture isActive captureFrame = OnError ''Failed to capture enough frames'') \<and>
        ((\<exists>fs'. startCapture isActive captureFrame = OnFramesCaptured fs') \<longleftrightarrow>
           2 \<le> length fs)"
  using assms by (auto simp add: startCapture_def Let_def)

lemma twoShots_frames:
  "capturedFrames (captureLoop twoShots duration frameCount 0 initialCapture) = [''a'', ''b'']"
proof -
  have "map Some (capturedFrames (captureLoop twoShots duration frameCount 0 initialCapture)) =
      map Some [''a'', ''b'']"
    unfolding captured_from_start
    by (simp add: frameCount_def twoShots_def successful_simps upt_rec)
  then show ?thesis by (simp only: inj_map_eq_map [OF inj_Some])
qed

lemma oneShot_frames:
  "capturedFrames (captureLoop oneShot duration frameCount 0 initialCapture) = [''a'']"
proof -
  have "map Some (capturedFrames (captureLoop oneShot duration frameCount 0 initialCapture)) =
      map Some [''a'']"
    unfolding captured_from_start
    by (simp add: frameCount_def oneShot_def successful_simps upt_rec)
  then show ?thesis by (simp only: inj_map_eq_map [OF inj_Some])
qed

theorem capture_postcondition_witness:
  "startCapture True twoShots = OnFramesCaptured [''a'', ''b''] \<and>
   startCapture True oneShot = OnError ''Failed to capture enough frames''"
  using capture_postcondition [of True twoShots] capture_postcondition [of True oneShot]
  by (simp add: twoShots_frames oneShot_frames Let_def)


section \<open>Properties of the guards of stitchFrames\<close>

text \<open>
  C9. The engine is checked before the number of frames: when OpenCV is not loaded,
  \<^verbatim>\<open>stitchFrames\<close> rejects with the error \<^verbatim>\<open>OpenCV not loaded\<close> for every list of frames,
  the empty and the one-frame list included, emits nothing and leaves the state as it
  was; the error for too few frames is reported only when the engine is loaded.
\<close>

theorem engine_check_first:
  "(\<not> isLoaded cv \<longrightarrow>
      stitchFrames cv frames st =
        \<lparr>returned = Inl (Error ''OpenCV not loaded''), emitted = [], hook = st\<rparr>) \<and>
   (returned (stitchFrames cv frames st) = Inl (Error ''Need at least 2 frames to stitch'')
      \<longrightarrow> isLoaded cv)"
  by (simp add: stitchFrames_def)

theorem engine_check_first_witness:
  "stitchFrames (exampleCv False None) [] idle =
     \<lparr>returned = Inl (Error ''OpenCV not loaded''), emitted = [], hook = idle\<rparr> \<and>
   stitchFrames (exampleCv False None) [''a''] idle =
     \<lparr>returned = Inl (Error ''OpenCV not loaded''), emitted = [], hook = idle\<rparr> \<and>
   returned (stitchFrames (exampleCv True None) [''a''] idle) =
     Inl (Error ''Need at least 2 frames to stitch'') \<and>
   isLoaded (exampleCv True None)"
  using engine_check_first [of "exampleCv False None" "[]" idle]
        engine_check_first [of "exampleCv False None" "[''a'']" idle]
        engine_check_first [of "exampleCv True None" "[''a'']" idle]
  by (simp add: exampleCv_def stitchFrames_def)

text \<open>
  C2, as stated, fails: with the engine not loaded, the empty list is rejected with the
  error of the engine guard, not with the error for too few frames.
\<close>

theorem too_few_frames_counterexample:
  "length ([] :: string list) < 2 \<and>
   returned (stitchFrames (exampleCv False None) [] idle) \<noteq>
     Inl (Error ''Need at least 2 frames to stitch'')"
  by (simp add: stitchFrames_def exampleCv_def)

text \<open>
  C2, amended. With the engine loaded, for every list of fewer than 2 frames
  \<^verbatim>\<open>stitchFrames\<close> fails with the error for too few frames before the loading stage: it
  produces no panorama, emits no progress event and leaves the state as it was.
\<close>

theorem too_few_frames:
  "isLoaded cv \<Longrightarrow> length frames < 2 \<Longrightarrow>
     stitchFrames cv frames st =
       \<lparr>returned = Inl (Error ''Need at least 2 frames to stitch''), emitted = [], hook = st\<rparr>"
  by (simp add: stitchFrames_def)

theorem too_few_frames_witness:
  "isLoaded (exampleCv True None) \<and> length [''a''] < 2 \<and>
   stitchFrames (exampleCv True None) [''a''] idle =
     \<lparr>returned = Inl (Error ''Need at least 2 frames to stitch''), emitted = [], hook = idle\<rparr>"
  using too_few_frames [of "exampleCv True None" "[''a'']" idle]
  by (simp add: exampleCv_def)

section \<open>Properties of the projection step\<close>

text \<open>
  C4. For every composite, the projection step asks \<^verbatim>\<open>cv.resize\<close> for the composite's
  width and half of it, rounded down, as height; with a \<^verbatim>\<open>cv.resize\<close> that gives the size
  it is asked for, the image returned has the composite's width and the height
  \<open>width div 2\<close>.
\<close>

theorem equirect_size:
  "honoursSize cv \<Longrightarrow>
     cols (convertEquirect cv composite) = cols composite \<and>
     rows (convertEquirect cv composite) = cols composite div 2"
  by (simp add: convertEquirect_def honoursSize_def Let_def)

theorem equirect_size_witness:
  "honoursSize (exampleCv True None) \<and>
   cols (convertEquirect (exampleCv True None) (solid 2 5 (0, 0, 0, 255))) = 5 \<and>
   rows (convertEquirect (exampleCv True None) (solid 2 5 (0, 0, 0, 255))) = 2"
proof -
  have h: "honoursSize (exampleCv True None)"
    by (simp add: honoursSize_def exampleCv_def nearest_def)
  show ?thesis
    using h equirect_size [OF h, of "solid 2 5 (0, 0, 0, 255)"]
    by (simp add: solid_def)
qed


section \<open>Properties of the fallback and of the runs of stitchFrames\<close>


subsection \<open>The canvas\<close>

lemma foldl_width: "foldl (\<lambda>w img. w + cols img) a images = a + sum_list (map cols images)"
  by (induction images arbitrary: a) simp_all

lemma totalWidth_sum: "totalWidth images = sum_list (map cols images)"
  by (simp add: totalWidth_def foldl_width)

lemma foldl_height:
  "foldl (\<lambda>h img. max h (rows img)) a images = Max (insert a (rows ` set images))"
proof (induction images arbitrary: a)
  case Nil
  show ?case by simp
next
  case (Cons img images)
  have "Max (insert (max a (rows img)) (rows ` set images)) =
      Max (insert a (insert (rows img) (rows ` set images)))"
    by (cases "images = []") (simp_all add: max.assoc)
  with Cons show ?case by simp
qed

lemma maxHeight_Max: "images \<noteq> [] \<Longrightarrow> maxHeight images = Max (rows ` set images)"
  by (simp add: maxHeight_def foldl_height)

lemma rows_le_maxHeight: "img \<in> set images \<Longrightarrow> rows img \<le> maxHeight images"
  by (simp add: maxHeight_def foldl_height)

lemma xOffsetOf_simps:
  "xOffsetOf images 0 = 0"
  "xOffsetOf (img # images) (Suc j) = cols img + xOffsetOf images j"
  by (simp_all add: xOffsetOf_def)

lemma xOffsetOf_le: "j < length images \<Longrightarrow>
  xOffsetOf images j + cols (images ! j) \<le> sum_list (map cols images)"
proof (induction images arbitrary: j)
  case Nil
  then show ?case by simp
next
  case (Cons img images)
  then show ?case by (cases j) (simp_all add: xOffsetOf_simps)
qed

lemma xOffsetOf_mono: "i < j \<Longrightarrow> j < length images \<Longrightarrow>
  xOffsetOf images i + cols (images ! i) \<le> xOffsetOf images j"
proof (induction images arbitrary: i j)
  case Nil
  then show ?case by simp
next
  case (Cons img images)
  from Cons.prems obtain j' where j: "j = Suc j'" by (cases j) simp_all
  show ?case
  proof (cases i)
    case 0
    with j show ?thesis by (simp add: xOffsetOf_simps)
  next
    case (Suc i')
    with j Cons.prems Cons.IH [of i' j'] show ?thesis by (simp add: xOffsetOf_simps)
  qed
qed

subsection \<open>The placement loop\<close>

lemma copyToRoi_Inr:
  "copyToRoi img result xOffset = Inr r \<longleftrightarrow>
     xOffset + cols img \<le> cols result \<and> rows img \<le> rows result \<and>
     r = result\<lparr>px := (\<lambda>y x. if y < rows img \<and> xOffset \<le> x \<and> x < xOffset + cols img
                             then px img y (x - xOffset) else px result y x)\<rparr>"
  by (auto simp add: copyToRoi_def)

lemma placeFrames_Cons:
  "copyToRoi img result xOffset = Inr result' \<Longrightarrow>
     placeFrames (img # imgs) i n xOffset result =
       (placedProgress i n # fst (placeFrames imgs (Suc i) n (xOffset + cols img) result'),
        snd (placeFrames imgs (Suc i) n (xOffset + cols img) result'))"
  by (simp add: case_prod_beta)

lemma placeFrames_Cons_Inl:
  "copyToRoi img result xOffset = Inl err \<Longrightarrow>
     placeFrames (img # imgs) i n xOffset result = ([], Inl err)"
  by simp

lemma upt_shift: "[i..<i + Suc m] = i # [Suc i..<Suc i + m]"
  by (subst upt_rec) simp

declare placeFrames.simps(2) [simp del]

lemma placeFrames_Inr_Cons:
  assumes "snd (placeFrames (img # imgs) i n xOffset result) = Inr r"
  obtains result' where "copyToRoi img result xOffset = Inr result'"
    and "snd (placeFrames imgs (Suc i) n (xOffset + cols img) result') = Inr r"
proof (cases "copyToRoi img result xOffset")
  case (Inl err)
  with assms show ?thesis by (simp add: placeFrames_Cons_Inl)
next
  case (Inr result')
  with assms that show ?thesis by (simp add: placeFrames_Cons)
qed

lemma placeFrames_dims:
  "snd (placeFrames imgs i n xOffset result) = Inr r \<Longrightarrow>
     rows r = rows result \<and> cols r = cols result"
proof (induction imgs arbitrary: i xOffset result)
  case Nil
  then show ?case by simp
next
  case (Cons img imgs)
  from Cons.prems obtain result' where c: "copyToRoi img result xOffset = Inr result'"
    and rest: "snd (placeFrames imgs (Suc i) n (xOffset + cols img) result') = Inr r"
    by (rule placeFrames_Inr_Cons)
  from c have "rows result' = rows result \<and> cols result' = cols result"
    by (auto simp add: copyToRoi_Inr)
  with Cons.IH [OF rest] show ?case by simp
qed

lemma placeFrames_succeeds:
  "xOffset + sum_list (map cols imgs) \<le> cols result \<Longrightarrow>
   \<forall>img\<in>set imgs. rows img \<le> rows result \<Longrightarrow>
     \<exists>r. snd (placeFrames imgs i n xOffset result) = Inr r"
proof (induction imgs arbitrary: i xOffset result)
  case Nil
  show ?case by simp
next
  case (Cons img imgs)
  define result' where "result' = result\<lparr>px :=
      (\<lambda>y x. if y < rows img \<and> xOffset \<le> x \<and> x < xOffset + cols img
             then px img y (x - xOffset) else px result y x)\<rparr>"
  from Cons.prems have c: "copyToRoi img result xOffset = Inr result'"
    by (simp add: copyToRoi_Inr result'_def)
  have "xOffset + cols img + sum_list (map cols imgs) \<le> cols result'"
    and "\<forall>img\<in>set imgs. rows img \<le> rows result'"
    using Cons.prems by (simp_all add: result'_def)
  from Cons.IH [OF this] show ?case by (simp add: placeFrames_Cons [OF c])
qed

lemma placeFrames_keeps:
  "snd (placeFrames imgs i n xOffset result) = Inr r \<Longrightarrow>
   \<forall>j<length imgs. \<not> (y < rows (imgs ! j) \<and> xOffset + xOffsetOf imgs j \<le> x \<and>
       x < xOffset + xOffsetOf imgs j + cols (imgs ! j)) \<Longrightarrow>
     px r y x = px result y x"
proof (induction imgs arbitrary: i xOffset result)
  case Nil
  then show ?case by simp
next
  case (Cons img imgs)
  from Cons.prems(1) obtain result' where c: "copyToRoi img result xOffset = Inr result'"
    and rest: "snd (placeFrames imgs (Suc i) n (xOffset + cols img) result') = Inr r"
    by (rule placeFrames_Inr_Cons)
  from Cons.prems(2) [rule_format, of 0]
  have "\<not> (y < rows img \<and> xOffset \<le> x \<and> x < xOffset + cols img)"
    by (simp add: xOffsetOf_simps)
  with c have here: "px result' y x = px result y x"
    by (auto simp add: copyToRoi_Inr)
  have "\<forall>j<length imgs. \<not> (y < rows (imgs ! j) \<and> xOffset + cols img + xOffsetOf imgs j \<le> x \<and>
       x < xOffset + cols img + xOffsetOf imgs j + cols (imgs ! j))"
  proof (intro allI impI)
    fix j assume "j < length imgs"
    with Cons.prems(2) [rule_format, of "Suc j"]
    show "\<not> (y < rows (imgs ! j) \<and> xOffset + cols img + xOffsetOf imgs j \<le> x \<and>
       x < xOffset + cols img + xOffsetOf imgs j + cols (imgs ! j))"
      by (simp add: xOffsetOf_simps add.assoc)
  qed
  from Cons.IH [OF rest this] here show ?case by simp
qed

lemma placeFrames_copies:
  "snd (placeFrames imgs i n xOffset result) = Inr r \<Longrightarrow>
   j < length imgs \<Longrightarrow> y < rows (imgs ! j) \<Longrightarrow> x < cols (imgs ! j) \<Longrightarrow>
     px r y (xOffset + xOffsetOf imgs j + x) = px (imgs ! j) y x"
proof (induction imgs arbitrary: i j xOffset result)
  case Nil
  then show ?case by simp
next
  case (Cons img imgs)
  from Cons.prems(1) obtain result' where c: "copyToRoi img result xOffset = Inr result'"
    and rest: "snd (placeFrames imgs (Suc i) n (xOffset + cols img) result') = Inr r"
    by (rule placeFrames_Inr_Cons)
  show ?case
  proof (cases j)
    case 0
    with Cons.prems c have here: "px result' y (xOffset + x) = px img y x"
      by (auto simp add: copyToRoi_Inr)
    have "px r y (xOffset + x) = px result' y (xOffset + x)"
      using rest
    proof (rule placeFrames_keeps)
      from 0 Cons.prems
      show "\<forall>j<length imgs. \<not> (y < rows (imgs ! j) \<and>
          xOffset + cols img + xOffsetOf imgs j \<le> xOffset + x \<and>
          xOffset + x < xOffset + cols img + xOffsetOf imgs j + cols (imgs ! j))"
        by simp
    qed
    with here 0 show ?thesis by (simp add: xOffsetOf_simps)
  next
    case (Suc j')
    with Cons.prems Cons.IH [OF rest, of j'] show ?thesis
      by (simp add: xOffsetOf_simps add.assoc)
  qed
qed

lemma placeFrames_events:
  "snd (placeFrames imgs i n xOffset result) = Inr r \<Longrightarrow>
     fst (placeFrames imgs i n xOffset result) =
       map (\<lambda>k. placedProgress k n) [i..<i + length imgs]"
proof (induction imgs arbitrary: i xOffset result)
  case Nil
  then show ?case by simp
next
  case (Cons img imgs)
  from Cons.prems obtain result' where c: "copyToRoi img result xOffset = Inr result'"
    and rest: "snd (placeFrames imgs (Suc i) n (xOffset + cols img) result') = Inr r"
    by (rule placeFrames_Inr_Cons)
  have "[i..<i + length (img # imgs)] = i # [Suc i..<Suc i + length imgs]"
    using upt_shift [of i "length imgs"] by simp
  with Cons.IH [OF rest] show ?case by (simp add: placeFrames_Cons [OF c])
qed

lemma placeFrames_events_prefix:
  "\<exists>m\<le>length imgs. fst (placeFrames imgs i n xOffset result) =
       map (\<lambda>k. placedProgress k n) [i..<i + m]"
proof (induction imgs arbitrary: i xOffset result)
  case Nil
  show ?case by simp
next
  case (Cons img imgs)
  show ?case
  proof (cases "copyToRoi img result xOffset")
    case (Inl err)
    then have "fst (placeFrames (img # imgs) i n xOffset result) =
        map (\<lambda>k. placedProgress k n) [i..<i + 0]" by (simp add: placeFrames_Cons_Inl)
    then show ?thesis by blast
  next
    case (Inr result')
    from Cons.IH [of "Suc i" "xOffset + cols img" result']
    obtain m where m: "m \<le> length imgs"
      and ev: "fst (placeFrames imgs (Suc i) n (xOffset + cols img) result') =
        map (\<lambda>k. placedProgress k n) [Suc i..<Suc i + m]" by blast
    have "[i..<i + Suc m] = i # [Suc i..<Suc i + m]" by (rule upt_shift)
    with ev have "fst (placeFrames (img # imgs) i n xOffset result) =
        map (\<lambda>k. placedProgress k n) [i..<i + Suc m]"
      by (simp add: placeFrames_Cons [OF Inr])
    with m show ?thesis by (intro exI [of _ "Suc m"]) simp
  qed
qed


subsection \<open>The fallback composite\<close>

lemma concatFrames_result:
  "\<exists>r. snd (concatFrames images) = Inr r \<and>
       snd (placeFrames images 0 (length images) 0 (canvas images)) = Inr r \<and>
       rows r = maxHeight images \<and> cols r = totalWidth images"
proof -
  have "0 + sum_list (map cols images) \<le> cols (canvas images)"
    and "\<forall>img\<in>set images. rows img \<le> rows (canvas images)"
    by (simp_all add: canvas_def totalWidth_sum rows_le_maxHeight)
  from placeFrames_succeeds [OF this]
  obtain r where r: "snd (placeFrames images 0 (length images) 0 (canvas images)) = Inr r"
    by blast
  from placeFrames_dims [OF r] have "rows r = maxHeight images \<and> cols r = totalWidth images"
    by (simp add: canvas_def)
  with r show ?thesis by (simp add: concatFrames_def case_prod_beta)
qed

lemma concatFrames_events:
  "fst (concatFrames images) =
     mkProgress Warping 50 ''Arranging frames...'' #
     map (\<lambda>k. placedProgress k (length images)) [0..<length images]"
proof -
  from concatFrames_result [of images]
  obtain r where "snd (placeFrames images 0 (length images) 0 (canvas images)) = Inr r"
    by blast
  from placeFrames_events [OF this] show ?thesis
    by (simp add: concatFrames_def case_prod_beta)
qed

text \<open>
  C3. For every list of at least 2 images the fallback returns a composite whose width is
  the sum of the images' widths and whose height is the largest of their heights. The
  images lie left to right in the order of the list: every pixel of image \<open>i\<close> is in the
  composite, in the same row and moved right by the widths of the images before it, and
  the columns of an earlier image end where those of a later image begin or before, so no
  pixel of any image is lost or overwritten.
\<close>

theorem fallback_composite:
  assumes "2 \<le> length images"
  shows "\<exists>r. snd (concatFrames images) = Inr r \<and>
     cols r = sum_list (map cols images) \<and>
     rows r = Max (rows ` set images) \<and>
     (\<forall>i<length images. \<forall>y<rows (images ! i). \<forall>x<cols (images ! i).
        y < rows r \<and> xOffsetOf images i + x < cols r \<and>
        px r y (xOffsetOf images i + x) = px (images ! i) y x) \<and>
     (\<forall>i j. i < j \<and> j < length images \<longrightarrow>
        xOffsetOf images i + cols (images ! i) \<le> xOffsetOf images j)"
proof -
  from concatFrames_result [of images]
  obtain r where r: "snd (concatFrames images) = Inr r"
    and p: "snd (placeFrames images 0 (length images) 0 (canvas images)) = Inr r"
    and dims: "rows r = maxHeight images" "cols r = totalWidth images"
    by blast
  from assms have ne: "images \<noteq> []" by auto
  have w: "cols r = sum_list (map cols images)"
    by (simp add: dims totalWidth_sum)
  have h: "rows r = Max (rows ` set images)"
    by (simp add: dims maxHeight_Max [OF ne])
  have pix: "y < rows r \<and> xOffsetOf images i + x < cols r \<and>
      px r y (xOffsetOf images i + x) = px (images ! i) y x"
    if "i < length images" "y < rows (images ! i)" "x < cols (images ! i)" for i y x
  proof -
    from that(1) have "rows (images ! i) \<le> maxHeight images"
      by (simp add: rows_le_maxHeight)
    with that(2) have 1: "y < rows r" by (simp add: dims)
    from xOffsetOf_le [OF that(1)] that(3) have 2: "xOffsetOf images i + x < cols r"
      by (simp add: w)
    from placeFrames_copies [OF p that] have "px r y (xOffsetOf images i + x) = px (images ! i) y x"
      by simp
    with 1 2 show ?thesis by simp
  qed
  have order: "xOffsetOf images i + cols (images ! i) \<le> xOffsetOf images j"
    if "i < j \<and> j < length images" for i j
    using that by (simp add: xOffsetOf_mono)
  from r w h pix order show ?thesis by blast
qed

text \<open>
  C10. In the fallback, image \<open>i\<close> is copied to the rectangle at the column that is the
  sum of the widths of the images before it and at row 0: the composite's pixels in that
  rectangle are the image's pixels. The rectangles of two different images share no
  pixel, and every pixel of the composite that lies in no rectangle is opaque black,
  (0, 0, 0, 255).
\<close>

theorem fallback_placement:
  "\<exists>r. snd (concatFrames images) = Inr r \<and>
     (\<forall>i<length images. \<forall>y x. covers images i y x \<longrightarrow>
        px r y x = px (images ! i) y (x - xOffsetOf images i)) \<and>
     (\<forall>i<length images. \<forall>j<length images. i \<noteq> j \<longrightarrow>
        (\<forall>y x. \<not> (covers images i y x \<and> covers images j y x))) \<and>
     (\<forall>y<rows r. \<forall>x<cols r. (\<forall>i<length images. \<not> covers images i y x) \<longrightarrow>
        px r y x = (0, 0, 0, 255))"
proof -
  from concatFrames_result [of images]
  obtain r where r: "snd (concatFrames images) = Inr r"
    and p: "snd (placeFrames images 0 (length images) 0 (canvas images)) = Inr r"
    by blast
  have placed: "px r y x = px (images ! i) y (x - xOffsetOf images i)"
    if "i < length images" "covers images i y x" for i y x
  proof -
    from that(2) have y: "y < rows (images ! i)"
      and x: "x - xOffsetOf images i < cols (images ! i)"
      and eq: "x = 0 + xOffsetOf images i + (x - xOffsetOf images i)"
      by (auto simp add: covers_def)
    from placeFrames_copies [OF p that(1) y x] eq show ?thesis by simp
  qed
  have apart: "\<not> (covers images i y x \<and> covers images j y x)"
    if "i < length images" "j < length images" "i \<noteq> j" for i j y x
  proof (cases "i < j")
    case True
    from xOffsetOf_mono [OF True that(2)] show ?thesis by (auto simp add: covers_def)
  next
    case False
    with that(3) have "j < i" by simp
    from xOffsetOf_mono [OF this that(1)] show ?thesis by (auto simp add: covers_def)
  qed
  have black: "px r y x = (0, 0, 0, 255)"
    if "\<forall>i<length images. \<not> covers images i y x" for y x
  proof -
    from that have "\<forall>j<length images. \<not> (y < rows (images ! j) \<and>
        0 + xOffsetOf images j \<le> x \<and> x < 0 + xOffsetOf images j + cols (images ! j))"
      by (simp add: covers_def)
    from placeFrames_keeps [OF p this] show ?thesis by (simp add: canvas_def)
  qed
  from r placed apart black show ?thesis by blast
qed


subsection \<open>The loading loop\<close>

lemma loadFrames_Cons_Decoded:
  "loadImage cv f = Decoded mat \<Longrightarrow>
     loadFrames cv (f # fs) i n images =
       (loadedProgress i n # fst (loadFrames cv fs (Suc i) n (images @ [mat])),
        snd (loadFrames cv fs (Suc i) n (images @ [mat])))"
  by (simp add: case_prod_beta)

lemma loadFrames_Cons_failed:
  "\<forall>mat. loadImage cv f \<noteq> Decoded mat \<Longrightarrow>
     fst (loadFrames cv (f # fs) i n images) = [] \<and>
     (\<exists>err. snd (loadFrames cv (f # fs) i n images) = Inl err)"
  by (cases "loadImage cv f") simp_all

declare loadFrames.simps(2) [simp del]

lemma loadFrames_all:
  "map (loadImage cv) fs = map Decoded ms \<Longrightarrow>
     loadFrames cv fs i n images =
       (map (\<lambda>k. loadedProgress k n) [i..<i + length fs], Inr (images @ ms))"
proof (induction fs arbitrary: i images ms)
  case Nil
  then show ?case by simp
next
  case (Cons f fs)
  from Cons.prems obtain mat ms' where ms: "ms = mat # ms'"
    and f: "loadImage cv f = Decoded mat"
    and rest: "map (loadImage cv) fs = map Decoded ms'"
    by (cases ms) auto
  have "[i..<i + length (f # fs)] = i # [Suc i..<Suc i + length fs]"
    using upt_shift [of i "length fs"] by simp
  with Cons.IH [OF rest, of "Suc i" "images @ [mat]"] ms show ?case
    by (simp add: loadFrames_Cons_Decoded [OF f])
qed

lemma loadFrames_Inr:
  "snd (loadFrames cv fs i n images) = Inr out \<Longrightarrow>
     \<exists>ms. map (loadImage cv) fs = map Decoded ms \<and> out = images @ ms"
proof (induction fs arbitrary: i images)
  case Nil
  then show ?case by simp
next
  case (Cons f fs)
  show ?case
  proof (cases "\<exists>mat. loadImage cv f = Decoded mat")
    case False
    then have "\<forall>mat. loadImage cv f \<noteq> Decoded mat" by simp
    from loadFrames_Cons_failed [OF this, of fs i n images] Cons.prems
    show ?thesis by auto
  next
    case True
    then obtain mat where f: "loadImage cv f = Decoded mat" by blast
    with Cons.prems have "snd (loadFrames cv fs (Suc i) n (images @ [mat])) = Inr out"
      by (simp add: loadFrames_Cons_Decoded)
    from Cons.IH [OF this] obtain ms where "map (loadImage cv) fs = map Decoded ms"
      and "out = images @ mat # ms" by auto
    with f have "map (loadImage cv) (f # fs) = map Decoded (mat # ms) \<and>
        out = images @ (mat # ms)" by simp
    then show ?thesis by blast
  qed
qed

lemma loadFrames_events_prefix:
  "\<exists>m\<le>length fs. fst (loadFrames cv fs i n images) =
       map (\<lambda>k. loadedProgress k n) [i..<i + m]"
proof (induction fs arbitrary: i images)
  case Nil
  show ?case by simp
next
  case (Cons f fs)
  show ?case
  proof (cases "\<exists>mat. loadImage cv f = Decoded mat")
    case False
    then have "\<forall>mat. loadImage cv f \<noteq> Decoded mat" by simp
    from loadFrames_Cons_failed [OF this, of fs i n images]
    have "fst (loadFrames cv (f # fs) i n images) =
        map (\<lambda>k. loadedProgress k n) [i..<i + 0]" by simp
    then show ?thesis by blast
  next
    case True
    then obtain mat where f: "loadImage cv f = Decoded mat" by blast
    from Cons.IH [of "Suc i" "images @ [mat]"]
    obtain m where m: "m \<le> length fs"
      and ev: "fst (loadFrames cv fs (Suc i) n (images @ [mat])) =
        map (\<lambda>k. loadedProgress k n) [Suc i..<Suc i + m]" by blast
    have "[i..<i + Suc m] = i # [Suc i..<Suc i + m]" by (rule upt_shift)
    with ev have "fst (loadFrames cv (f # fs) i n images) =
        map (\<lambda>k. loadedProgress k n) [i..<i + Suc m]"
      by (simp add: loadFrames_Cons_Decoded [OF f])
    with m show ?thesis by (intro exI [of _ "Suc m"]) simp
  qed
qed

subsection \<open>The body of stitchFrames\<close>

lemma stitchBody_fallback:
  assumes "map (loadImage cv) frames = map Decoded images"
    and "Stitcher cv = None"
    and "snd (concatFrames images) = Inr r"
  shows "stitchBody cv frames =
    ([mkProgress Loading 0 ''Loading frames...'',
      mkProgress Preprocessing 10 ''Preprocessing frames...''] @
     map (\<lambda>k. loadedProgress k (length frames)) [0..<length frames] @
     [mkProgress Detecting 30 ''Detecting features...'',
      mkProgress Warping 50 ''Arranging frames...''] @
     map (\<lambda>k. placedProgress k (length frames)) [0..<length frames] @
     [mkProgress Blending 80 ''Blending seams...'',
      mkProgress Complete 100 ''Complete!''],
     finishPanorama cv r)"
proof -
  from assms(1) have "length (map (loadImage cv) frames) = length (map Decoded images)"
    by simp
  then have len: "length images = length frames" by simp
  have l: "loadFrames cv frames 0 (length frames) [] =
      (map (\<lambda>k. loadedProgress k (length frames)) [0..<length frames], Inr images)"
    using loadFrames_all [OF assms(1), of 0 "length frames" "[]"] by simp
  have c: "concatFrames images =
      (mkProgress Warping 50 ''Arranging frames...'' #
       map (\<lambda>k. placedProgress k (length frames)) [0..<length frames], Inr r)"
    using concatFrames_events [of images] assms(3) len
    by (simp add: prod_eq_iff)
  show ?thesis
    by (simp add: stitchBody_def l c assms(2))
qed

lemma stitchBody_feature:
  assumes "map (loadImage cv) frames = map Decoded images"
    and "Stitcher cv = Some stitch"
  shows "stitchBody cv frames =
    (if fst (stitch images) = Stitcher_OK cv then
       ([mkProgress Loading 0 ''Loading frames...'',
         mkProgress Preprocessing 10 ''Preprocessing frames...''] @
        map (\<lambda>k. loadedProgress k (length frames)) [0..<length frames] @
        [mkProgress Detecting 30 ''Detecting features...'',
         mkProgress Blending 80 ''Blending seams...'',
         mkProgress Complete 100 ''Complete!''],
        finishPanorama cv (snd (stitch images)))
     else
       ([mkProgress Loading 0 ''Loading frames...'',
         mkProgress Preprocessing 10 ''Preprocessing frames...''] @
        map (\<lambda>k. loadedProgress k (length frames)) [0..<length frames] @
        [mkProgress Detecting 30 ''Detecting features...''],
        Inl (Error (''Stitching failed with status: '' @ string_of_int (fst (stitch images))))))"
proof -
  have l: "loadFrames cv frames 0 (length frames) [] =
      (map (\<lambda>k. loadedProgress k (length frames)) [0..<length frames], Inr images)"
    using loadFrames_all [OF assms(1), of 0 "length frames" "[]"] by simp
  show ?thesis
    by (simp add: stitchBody_def l assms(2) featureStitch_def case_prod_beta)
qed

lemma stitchBody_Inr:
  assumes "snd (stitchBody cv frames) = Inr p"
  shows "\<exists>images. map (loadImage cv) frames = map Decoded images \<and>
    (case Stitcher cv of
       None \<Rightarrow> True
     | Some stitch \<Rightarrow> fst (stitch images) = Stitcher_OK cv)"
proof (cases "snd (loadFrames cv frames 0 (length frames) [])")
  case (Inl err)
  with assms show ?thesis by (simp add: stitchBody_def case_prod_beta)
next
  case (Inr out)
  from loadFrames_Inr [OF this] obtain images
    where images: "map (loadImage cv) frames = map Decoded images" by blast
  show ?thesis
  proof (cases "Stitcher cv")
    case None
    with images show ?thesis by auto
  next
    case (Some stitch)
    from assms stitchBody_feature [OF images Some]
    have "fst (stitch images) = Stitcher_OK cv"
      by (cases "fst (stitch images) = Stitcher_OK cv") simp_all
    with images Some show ?thesis by auto
  qed
qed

text \<open>The events of any run: a prefix of the events of a complete run.\<close>

lemma stitchBody_shape:
  "\<exists>m1 m3 pre post. m1 \<le> length frames \<and> m3 \<le> length frames \<and>
     fst (stitchBody cv frames) =
       [mkProgress Loading 0 ''Loading frames...'',
        mkProgress Preprocessing 10 ''Preprocessing frames...''] @
       map (\<lambda>k. loadedProgress k (length frames)) [0..<m1] @ pre @
       map (\<lambda>k. placedProgress k (length frames)) [0..<m3] @ post \<and>
     pre \<in> {[], [mkProgress Detecting 30 ''Detecting features...''],
             [mkProgress Detecting 30 ''Detecting features...'',
              mkProgress Warping 50 ''Arranging frames...'']} \<and>
     post \<in> {[], [mkProgress Blending 80 ''Blending seams...'',
                  mkProgress Complete 100 ''Complete!'']}"
proof (cases "snd (loadFrames cv frames 0 (length frames) [])")
  case (Inl err)
  from loadFrames_events_prefix [of frames cv 0 "length frames" "[]"]
  obtain m where m: "m \<le> length frames"
    and ev: "fst (loadFrames cv frames 0 (length frames) []) =
        map (\<lambda>k. loadedProgress k (length frames)) [0..<m]" by auto
  from Inl ev have "fst (stitchBody cv frames) =
       [mkProgress Loading 0 ''Loading frames...'',
        mkProgress Preprocessing 10 ''Preprocessing frames...''] @
       map (\<lambda>k. loadedProgress k (length frames)) [0..<m] @ [] @
       map (\<lambda>k. placedProgress k (length frames)) [0..<0] @ []"
    by (simp add: stitchBody_def case_prod_beta)
  with m show ?thesis by blast
next
  case (Inr out)
  from loadFrames_Inr [OF this] obtain images
    where images: "map (loadImage cv) frames = map Decoded images" by blast
  show ?thesis
  proof (cases "Stitcher cv")
    case None
    from concatFrames_result [of images] obtain r where "snd (concatFrames images) = Inr r"
      by blast
    from stitchBody_fallback [OF images None this]
    have "fst (stitchBody cv frames) =
       [mkProgress Loading 0 ''Loading frames...'',
        mkProgress Preprocessing 10 ''Preprocessing frames...''] @
       map (\<lambda>k. loadedProgress k (length frames)) [0..<length frames] @
       [mkProgress Detecting 30 ''Detecting features...'',
        mkProgress Warping 50 ''Arranging frames...''] @
       map (\<lambda>k. placedProgress k (length frames)) [0..<length frames] @
       [mkProgress Blending 80 ''Blending seams...'',
        mkProgress Complete 100 ''Complete!'']" by simp
    then show ?thesis by blast
  next
    case (Some stitch)
    show ?thesis
    proof (cases "fst (stitch images) = Stitcher_OK cv")
      case True
      with stitchBody_feature [OF images Some]
      have "fst (stitchBody cv frames) =
         [mkProgress Loading 0 ''Loading frames...'',
          mkProgress Preprocessing 10 ''Preprocessing frames...''] @
         map (\<lambda>k. loadedProgress k (length frames)) [0..<length frames] @
         [mkProgress Detecting 30 ''Detecting features...''] @
         map (\<lambda>k. placedProgress k (length frames)) [0..<0] @
         [mkProgress Blending 80 ''Blending seams...'',
          mkProgress Complete 100 ''Complete!'']" by simp
      then show ?thesis by blast
    next
      case False
      with stitchBody_feature [OF images Some]
      have "fst (stitchBody cv frames) =
         [mkProgress Loading 0 ''Loading frames...'',
          mkProgress Preprocessing 10 ''Preprocessing frames...''] @
         map (\<lambda>k. loadedProgress k (length frames)) [0..<length frames] @
         [mkProgress Detecting 30 ''Detecting features...''] @
         map (\<lambda>k. placedProgress k (length frames)) [0..<0] @ []" by simp
      then show ?thesis by blast
    qed
  qed
qed


subsection \<open>The runs of stitchFrames\<close>

lemma stitchFrames_run:
  "isLoaded cv \<Longrightarrow> 2 \<le> length frames \<Longrightarrow>
     returned (stitchFrames cv frames st) = snd (stitchBody cv frames) \<and>
     emitted (stitchFrames cv frames st) = fst (stitchBody cv frames) \<and>
     errorState (hook (stitchFrames cv frames st)) =
       (case snd (stitchBody cv frames) of Inl err \<Rightarrow> Some (errorMessage err) | Inr _ \<Rightarrow> None)"
  by (simp add: stitchFrames_def case_prod_beta)

lemma stitchFrames_guarded:
  "\<not> (isLoaded cv \<and> 2 \<le> length frames) \<Longrightarrow>
     emitted (stitchFrames cv frames st) = [] \<and>
     (\<exists>err. returned (stitchFrames cv frames st) = Inl err)"
  by (auto simp add: stitchFrames_def)

lemma stage_simps:
  "stage (mkProgress s p m) = s"
  "stage (loadedProgress k n) = Preprocessing"
  "stage (placedProgress k n) = Warping"
  by (simp_all add: mkProgress_def loadedProgress_def placedProgress_def)

lemma progress_simps:
  "progress (mkProgress s p m) = p"
  "progress (loadedProgress k n) = 10 + (of_nat k / of_nat n) * 20"
  "progress (placedProgress k n) = 50 + (of_nat k / of_nat n) * 30"
  by (simp_all add: mkProgress_def loadedProgress_def placedProgress_def)

lemma finishPanorama_returns:
  "resizeThrows cv r (cols r) (cols r div 2) = None \<Longrightarrow> imencode cv = Some encode \<Longrightarrow>
   encode (convertEquirect cv r) = Inr bytes \<Longrightarrow> length bytes \<le> maxArguments cv \<Longrightarrow>
     finishPanorama cv r =
       Inr (''data:image/png;base64,'' @ btoa cv (map (\<lambda>b. char_of (unat b)) bytes))"
  by (simp add: finishPanorama_def dataUrl_def fromCharCodeSpread_def)

lemma example_returns: "\<exists>p. finishPanorama (exampleCv loaded st) r = Inr p"
  by (simp add: finishPanorama_def dataUrl_def fromCharCodeSpread_def exampleCv_def
      sizeBytes_def)

lemma example_decodes:
  "map (loadImage (exampleCv loaded st)) [''a'', ''b''] = map Decoded exampleImages"
  by (simp add: exampleCv_def exampleImages_def)

lemma example_env:
  "isLoaded (exampleCv loaded st) = loaded" "Stitcher (exampleCv loaded st) = st"
  "Stitcher_OK (exampleCv loaded st) = 0"
  by (simp_all add: exampleCv_def)

text \<open>
  C1, as stated, fails: with a stitcher that reports the status 1, the run on two frames
  that decode ends in an error and returns no panorama.
\<close>

theorem stitcher_selection_counterexample:
  "returned (stitchFrames (exampleCv True (Some failingStitcher)) [''a'', ''b''] idle) =
     Inl (Error ''Stitching failed with status: 1'')"
  using stitchBody_feature [OF example_decodes, of True "Some failingStitcher" failingStitcher]
  by (simp add: stitchFrames_run example_env failingStitcher_def string_of_int_def
      string_of_nat.simps digit_char_def)

text \<open>
  C1, amended. With the engine loaded and at least 2 frames that all decode: when the
  feature stitcher is not available, \<^verbatim>\<open>stitchFrames\<close> falls back to the horizontal
  concatenation, and when the steps after it succeed, that is \<^verbatim>\<open>cv.resize\<close> and
  \<^verbatim>\<open>cv.imencode\<close> return and the encoding has no more bytes than the engine accepts as
  arguments of one call, it returns the data URL of the resized composite's encoding and
  no error is set; when the feature stitcher is available and reports a status other than
  success, there is no fallback: the call rejects with the error
  \<^verbatim>\<open>Stitching failed with status\<close> and the status, and that message is set as the error of
  the hook.
\<close>

theorem stitcher_selection:
  assumes "isLoaded cv" and "2 \<le> length frames"
    and "map (loadImage cv) frames = map Decoded images"
  shows "(Stitcher cv = None \<longrightarrow>
      (\<exists>r. snd (concatFrames images) = Inr r \<and>
         (\<forall>encode bytes.
            resizeThrows cv r (cols r) (cols r div 2) = None \<and>
            imencode cv = Some encode \<and>
            encode (convertEquirect cv r) = Inr bytes \<and>
            length bytes \<le> maxArguments cv \<longrightarrow>
              returned (stitchFrames cv frames st) =
                Inr (''data:image/png;base64,'' @ btoa cv (map (\<lambda>b. char_of (unat b)) bytes)) \<and>
              errorState (hook (stitchFrames cv frames st)) = None))) \<and>
    (\<forall>stitch. Stitcher cv = Some stitch \<and> fst (stitch images) \<noteq> Stitcher_OK cv \<longrightarrow>
       returned (stitchFrames cv frames st) =
         Inl (Error (''Stitching failed with status: '' @ string_of_int (fst (stitch images)))) \<and>
       errorState (hook (stitchFrames cv frames st)) =
         Some (''Stitching failed with status: '' @ string_of_int (fst (stitch images))))"
proof (intro conjI impI allI)
  assume none: "Stitcher cv = None"
  from concatFrames_result [of images] obtain r where r: "snd (concatFrames images) = Inr r"
    by blast
  from stitchBody_fallback [OF assms(3) none r] stitchFrames_run [OF assms(1,2), of st]
  have run: "returned (stitchFrames cv frames st) = finishPanorama cv r"
    "errorState (hook (stitchFrames cv frames st)) =
       (case finishPanorama cv r of Inl err \<Rightarrow> Some (errorMessage err) | Inr _ \<Rightarrow> None)"
    by simp_all
  have "returned (stitchFrames cv frames st) =
        Inr (''data:image/png;base64,'' @ btoa cv (map (\<lambda>b. char_of (unat b)) bytes)) \<and>
      errorState (hook (stitchFrames cv frames st)) = None"
    if "resizeThrows cv r (cols r) (cols r div 2) = None \<and> imencode cv = Some encode \<and>
        encode (convertEquirect cv r) = Inr bytes \<and> length bytes \<le> maxArguments cv"
    for encode bytes
  proof -
    from that have "finishPanorama cv r =
        Inr (''data:image/png;base64,'' @ btoa cv (map (\<lambda>b. char_of (unat b)) bytes))"
      by (simp add: finishPanorama_returns)
    then show ?thesis by (simp add: run)
  qed
  with r show "\<exists>r. snd (concatFrames images) = Inr r \<and>
      (\<forall>encode bytes.
            resizeThrows cv r (cols r) (cols r div 2) = None \<and>
            imencode cv = Some encode \<and>
            encode (convertEquirect cv r) = Inr bytes \<and>
            length bytes \<le> maxArguments cv \<longrightarrow>
              returned (stitchFrames cv frames st) =
                Inr (''data:image/png;base64,'' @ btoa cv (map (\<lambda>b. char_of (unat b)) bytes)) \<and>
              errorState (hook (stitchFrames cv frames st)) = None)" by blast
next
  fix stitch
  assume "Stitcher cv = Some stitch \<and> fst (stitch images) \<noteq> Stitcher_OK cv"
  then have some: "Stitcher cv = Some stitch" and bad: "fst (stitch images) \<noteq> Stitcher_OK cv"
    by simp_all
  from stitchBody_feature [OF assms(3) some] bad stitchFrames_run [OF assms(1,2), of st]
  show "returned (stitchFrames cv frames st) =
      Inl (Error (''Stitching failed with status: '' @ string_of_int (fst (stitch images))))"
    and "errorState (hook (stitchFrames cv frames st)) =
         Some (''Stitching failed with status: '' @ string_of_int (fst (stitch images)))"
    by simp_all
qed

theorem stitcher_selection_witness:
  "returned (stitchFrames (exampleCv True None) [''a'', ''b''] idle) =
     Inr ''data:image/png;base64,BQI='' \<and>
   errorState (hook (stitchFrames (exampleCv True None) [''a'', ''b''] idle)) = None \<and>
   errorState (hook (stitchFrames (exampleCv True (Some failingStitcher)) [''a'', ''b''] idle)) =
     Some ''Stitching failed with status: 1''"
proof -
  let ?cv = "exampleCv True None"
  from stitcher_selection [OF _ _ example_decodes, of True None idle]
  obtain r where r: "snd (concatFrames exampleImages) = Inr r"
    and ret: "\<forall>encode bytes.
        resizeThrows ?cv r (cols r) (cols r div 2) = None \<and>
        imencode ?cv = Some encode \<and>
        encode (convertEquirect ?cv r) = Inr bytes \<and>
        length bytes \<le> maxArguments ?cv \<longrightarrow>
          returned (stitchFrames ?cv [''a'', ''b''] idle) =
            Inr (''data:image/png;base64,'' @ btoa ?cv (map (\<lambda>b. char_of (unat b)) bytes)) \<and>
          errorState (hook (stitchFrames ?cv [''a'', ''b''] idle)) = None"
    by (auto simp add: example_env)
  from concatFrames_result [of exampleImages] r have w: "cols r = 5"
    by (auto simp add: totalWidth_def exampleImages_def gradient_def solid_def)
  have "resizeThrows ?cv r (cols r) (cols r div 2) = None \<and>
      imencode ?cv = Some sizeBytes \<and>
      sizeBytes (convertEquirect ?cv r) = Inr [5, 2] \<and>
      length [5 :: 8 word, 2] \<le> maxArguments ?cv"
    by (simp add: w exampleCv_def convertEquirect_def nearest_def sizeBytes_def)
  from ret [rule_format, OF this]
  have "returned (stitchFrames ?cv [''a'', ''b''] idle) =
        Inr (''data:image/png;base64,'' @
          btoa ?cv (map (\<lambda>b. char_of (unat b)) [5 :: 8 word, 2])) \<and>
      errorState (hook (stitchFrames ?cv [''a'', ''b''] idle)) = None" .
  moreover have "btoa ?cv (map (\<lambda>b. char_of (unat b)) [5 :: 8 word, 2]) = ''BQI=''"
    by (simp add: exampleCv_def smallBtoa_def)
  ultimately have 1: "returned (stitchFrames ?cv [''a'', ''b''] idle) =
       Inr ''data:image/png;base64,BQI='' \<and>
      errorState (hook (stitchFrames ?cv [''a'', ''b''] idle)) = None"
    by simp
  from stitcher_selection [OF _ _ example_decodes, of True "Some failingStitcher" idle]
  have "errorState (hook (stitchFrames (exampleCv True (Some failingStitcher)) [''a'', ''b''] idle)) =
     Some ''Stitching failed with status: 1''"
    by (simp add: example_env failingStitcher_def string_of_int_def
        string_of_nat.simps digit_char_def)
  with 1 show ?thesis by simp
qed

text \<open>
  The steps after the fallback can fail: in a build without \<^verbatim>\<open>cv.imencode\<close>, and in an
  engine that accepts fewer arguments than the encoding has bytes, the run on the two
  example frames emits its events up to the stage \<^verbatim>\<open>complete\<close> and then rejects.
\<close>

lemma fallback_run_without_imencode:
  "returned (stitchFrames buildWithoutImencode [''a'', ''b''] idle) =
     Inl (Error ''cv.imencode is not a function'') \<and>
   stage (last (emitted (stitchFrames buildWithoutImencode [''a'', ''b''] idle))) = Complete"
proof -
  have d: "map (loadImage buildWithoutImencode) [''a'', ''b''] = map Decoded exampleImages"
    by (simp add: buildWithoutImencode_def exampleCv_def exampleImages_def)
  from concatFrames_result [of exampleImages]
  obtain r where "snd (concatFrames exampleImages) = Inr r" by blast
  from stitchBody_fallback [OF d _ this] show ?thesis
    by (simp add: stitchFrames_run buildWithoutImencode_def exampleCv_def finishPanorama_def
        dataUrl_def stage_simps)
qed

lemma fallback_run_with_long_encoding:
  "returned (stitchFrames oneArgumentEngine [''a'', ''b''] idle) =
     Inl (Error ''Maximum call stack size exceeded'') \<and>
   stage (last (emitted (stitchFrames oneArgumentEngine [''a'', ''b''] idle))) = Complete"
proof -
  have d: "map (loadImage oneArgumentEngine) [''a'', ''b''] = map Decoded exampleImages"
    by (simp add: oneArgumentEngine_def exampleCv_def exampleImages_def)
  from concatFrames_result [of exampleImages]
  obtain r where "snd (concatFrames exampleImages) = Inr r" by blast
  from stitchBody_fallback [OF d _ this] show ?thesis
    by (simp add: stitchFrames_run oneArgumentEngine_def exampleCv_def finishPanorama_def
        dataUrl_def fromCharCodeSpread_def sizeBytes_def stage_simps)
qed


lemma example_images:
  "length exampleImages = 2"
  "0 < length exampleImages" "1 < length exampleImages"
  "exampleImages ! 0 = gradient 2 3" "exampleImages ! 1 = solid 1 2 (0, 0, 255, 255)"
  "xOffsetOf exampleImages 0 = 0" "xOffsetOf exampleImages 1 = 3"
  "exampleImages ! Suc 0 = solid 1 2 (0, 0, 255, 255)" "xOffsetOf exampleImages (Suc 0) = 3"
  by (simp_all add: exampleImages_def xOffsetOf_def gradient_def)

lemma example_pixels:
  "rows (gradient h w) = h" "cols (gradient h w) = w"
  "rows (solid h w p) = h" "cols (solid h w p) = w"
  "px (gradient 2 3) 1 2 = (1, 2, 0, 255)"
  "px (solid 1 2 (0, 0, 255, 255)) 0 x = (0, 0, 255, 255)"
  by (simp_all add: gradient_def solid_def)

theorem fallback_composite_witness:
  "\<exists>r. snd (concatFrames exampleImages) = Inr r \<and> cols r = 5 \<and> rows r = 2 \<and>
       px r 1 2 = (1, 2, 0, 255) \<and> px r 0 4 = (0, 0, 255, 255)"
proof -
  have "2 \<le> length exampleImages" by (simp add: example_images)
  from fallback_composite [OF this]
  obtain r where r: "snd (concatFrames exampleImages) = Inr r"
    and w: "cols r = sum_list (map cols exampleImages)"
    and h: "rows r = Max (rows ` set exampleImages)"
    and pix: "\<forall>i<length exampleImages. \<forall>y<rows (exampleImages ! i).
        \<forall>x<cols (exampleImages ! i).
          y < rows r \<and> xOffsetOf exampleImages i + x < cols r \<and>
          px r y (xOffsetOf exampleImages i + x) = px (exampleImages ! i) y x"
    by blast
  from w have 1: "cols r = 5" by (simp add: exampleImages_def example_pixels)
  from h have 2: "rows r = 2" by (simp add: exampleImages_def example_pixels)
  have "1 < rows (exampleImages ! 0)" "2 < cols (exampleImages ! 0)"
    by (simp_all add: example_images example_pixels)
  with pix example_images(2)
  have "px r 1 (xOffsetOf exampleImages 0 + 2) = px (exampleImages ! 0) 1 2" by blast
  moreover have "xOffsetOf exampleImages 0 + 2 = 2" by (simp add: example_images)
  ultimately have 3: "px r 1 2 = (1, 2, 0, 255)"
    by (simp only: example_images example_pixels)
  have "0 < rows (exampleImages ! 1)" "1 < cols (exampleImages ! 1)"
    by (simp_all add: example_images example_pixels)
  with pix example_images(3)
  have "px r 0 (xOffsetOf exampleImages 1 + 1) = px (exampleImages ! 1) 0 1" by blast
  moreover have "xOffsetOf exampleImages 1 + 1 = 4" by (simp add: example_images)
  ultimately have 4: "px r 0 4 = (0, 0, 255, 255)"
    by (simp only: example_images example_pixels)
  from r 1 2 3 4 show ?thesis by blast
qed

theorem fallback_placement_witness:
  "\<exists>r. snd (concatFrames exampleImages) = Inr r \<and>
       covers exampleImages 0 1 2 \<and> px r 1 2 = (1, 2, 0, 255) \<and>
       covers exampleImages 1 0 3 \<and> px r 0 3 = (0, 0, 255, 255) \<and>
       \<not> covers exampleImages 0 0 3 \<and>
       1 < rows r \<and> 3 < cols r \<and>
       \<not> covers exampleImages 0 1 3 \<and> \<not> covers exampleImages 1 1 3 \<and>
       px r 1 3 = (0, 0, 0, 255)"
proof -
  from fallback_placement [of exampleImages]
  obtain r where r: "snd (concatFrames exampleImages) = Inr r"
    and placed: "\<forall>i<length exampleImages. \<forall>y x. covers exampleImages i y x \<longrightarrow>
        px r y x = px (exampleImages ! i) y (x - xOffsetOf exampleImages i)"
    and apart: "\<forall>i<length exampleImages. \<forall>j<length exampleImages. i \<noteq> j \<longrightarrow>
        (\<forall>y x. \<not> (covers exampleImages i y x \<and> covers exampleImages j y x))"
    and black: "\<forall>y<rows r. \<forall>x<cols r.
        (\<forall>i<length exampleImages. \<not> covers exampleImages i y x) \<longrightarrow> px r y x = (0, 0, 0, 255)"
    by blast
  from concatFrames_result [of exampleImages] r
  have dims: "1 < rows r" "3 < cols r"
    by (auto simp add: totalWidth_def maxHeight_def exampleImages_def example_pixels)
  have c0: "covers exampleImages 0 1 2" and c1: "covers exampleImages 1 0 3"
    unfolding covers_def by (simp_all only: example_images example_pixels) simp_all
  have n0: "\<not> covers exampleImages 0 1 3" and n1: "\<not> covers exampleImages 1 1 3"
    unfolding covers_def by (simp_all only: example_images example_pixels) simp_all
  from placed example_images(2) c0
  have "px r 1 2 = px (exampleImages ! 0) 1 (2 - xOffsetOf exampleImages 0)" by blast
  moreover have "2 - xOffsetOf exampleImages 0 = 2" by (simp add: example_images)
  ultimately have p0: "px r 1 2 = (1, 2, 0, 255)"
    by (simp only: example_images example_pixels)
  from placed example_images(3) c1
  have "px r 0 3 = px (exampleImages ! 1) 0 (3 - xOffsetOf exampleImages 1)" by blast
  then have p1: "px r 0 3 = (0, 0, 255, 255)"
    by (simp only: example_images example_pixels)
  have "(0::nat) \<noteq> 1" by simp
  with apart example_images(2,3) c1 have a: "\<not> covers exampleImages 0 0 3" by blast
  have "\<not> covers exampleImages i 1 3" if "i < length exampleImages" for i
  proof -
    from that have "i = 0 \<or> i = 1" by (auto simp add: example_images)
    with n0 n1 show ?thesis by blast
  qed
  with black dims have b: "px r 1 3 = (0, 0, 0, 255)" by blast
  from r c0 p0 c1 p1 a dims n0 n1 b show ?thesis by blast
qed

subsection \<open>Stages and percentages\<close>

lemma ratio_bounds:
  "k < n \<Longrightarrow> 0 \<le> (of_nat k / of_nat n :: rat) \<and> (of_nat k / of_nat n :: rat) \<le> 1"
  by (simp add: divide_le_eq_1)

lemma checkpoint_loaded: "k < n \<Longrightarrow> checkpoint n (loadedProgress k n)"
proof -
  assume k: "k < n"
  define q :: rat where "q = of_nat k / of_nat n"
  from ratio_bounds [OF k] have "0 \<le> q" "q \<le> 1" by (simp_all add: q_def)
  then have "10 \<le> 10 + q * 20" and "10 + q * 20 \<le> 30" by linarith+
  then have "10 \<le> progress (loadedProgress k n)" and "progress (loadedProgress k n) \<le> 30"
    by (simp_all only: progress_simps q_def)
  moreover have "\<exists>j<n. progress (loadedProgress k n) = 10 + (of_nat j / of_nat n) * 20"
    using k by (auto simp only: progress_simps)
  ultimately show ?thesis
    by (simp add: checkpoint_def stage_simps)
qed

lemma checkpoint_placed: "k < n \<Longrightarrow> checkpoint n (placedProgress k n)"
proof -
  assume k: "k < n"
  define q :: rat where "q = of_nat k / of_nat n"
  from ratio_bounds [OF k] have "0 \<le> q" "q \<le> 1" by (simp_all add: q_def)
  then have "50 \<le> 50 + q * 30" and "50 + q * 30 \<le> 80" by linarith+
  then have "50 \<le> progress (placedProgress k n)" and "progress (placedProgress k n) \<le> 80"
    by (simp_all only: progress_simps q_def)
  moreover have "\<exists>j<n. progress (placedProgress k n) = 50 + (of_nat j / of_nat n) * 30"
    using k by (auto simp only: progress_simps)
  ultimately show ?thesis
    by (simp add: checkpoint_def stage_simps)
qed

lemma checkpoint_fixed:
  "checkpoint n (mkProgress Loading 0 m)"
  "0 < n \<Longrightarrow> checkpoint n (mkProgress Preprocessing 10 m)"
  "checkpoint n (mkProgress Detecting 30 m)"
  "0 < n \<Longrightarrow> checkpoint n (mkProgress Warping 50 m)"
  "checkpoint n (mkProgress Blending 80 m)"
  "checkpoint n (mkProgress Complete 100 m)"
  by (auto simp add: checkpoint_def stage_simps progress_simps intro: exI [of _ 0])


lemma remdups_adj_run: "remdups_adj (x # replicate n x @ ys) = remdups_adj (x # ys)"
  by (induction n) simp_all

lemma stages_loaded:
  "map stage (map (\<lambda>k. loadedProgress k n) [0..<m]) = replicate m Preprocessing"
  by (simp add: comp_def stage_simps map_replicate_const)

lemma stages_placed:
  "map stage (map (\<lambda>k. placedProgress k n) [0..<m]) = replicate m Warping"
  by (simp add: comp_def stage_simps map_replicate_const)

lemma stitchBody_stages:
  "\<exists>m1 m3 pre post.
     map stage (fst (stitchBody cv frames)) =
       [Loading, Preprocessing] @ replicate m1 Preprocessing @ pre @
       replicate m3 Warping @ post \<and>
     pre \<in> {[], [Detecting], [Detecting, Warping]} \<and>
     post \<in> {[], [Blending, Complete]}"
proof -
  from stitchBody_shape [of frames cv]
  obtain m1 m3 pre post where
    ev: "fst (stitchBody cv frames) =
       [mkProgress Loading 0 ''Loading frames...'',
        mkProgress Preprocessing 10 ''Preprocessing frames...''] @
       map (\<lambda>k. loadedProgress k (length frames)) [0..<m1] @ pre @
       map (\<lambda>k. placedProgress k (length frames)) [0..<m3] @ post"
    and pre: "pre \<in> {[], [mkProgress Detecting 30 ''Detecting features...''],
             [mkProgress Detecting 30 ''Detecting features...'',
              mkProgress Warping 50 ''Arranging frames...'']}"
    and post: "post \<in> {[], [mkProgress Blending 80 ''Blending seams...'',
                  mkProgress Complete 100 ''Complete!'']}"
    by blast
  from ev have a: "map stage (fst (stitchBody cv frames)) =
       [Loading, Preprocessing] @ replicate m1 Preprocessing @ map stage pre @
       replicate m3 Warping @ map stage post"
    by (simp add: stage_simps stages_loaded stages_placed del: map_map)
  from pre have b: "map stage pre \<in> {[], [Detecting], [Detecting, Warping]}"
    by (auto simp add: stage_simps)
  from post have c: "map stage post \<in> {[], [Blending, Complete]}"
    by (auto simp add: stage_simps)
  show ?thesis
    by (rule exI [of _ m1], rule exI [of _ m3], rule exI [of _ "map stage pre"],
        rule exI [of _ "map stage post"]) (intro conjI a b c)
qed

lemma stitchBody_sorted: "sorted (map stageIndex (map stage (fst (stitchBody cv frames))))"
proof -
  from stitchBody_stages [of cv frames]
  obtain m1 m3 pre post where
    st: "map stage (fst (stitchBody cv frames)) =
       [Loading, Preprocessing] @ replicate m1 Preprocessing @ pre @
       replicate m3 Warping @ post"
    and pre: "pre \<in> {[], [Detecting], [Detecting, Warping]}"
    and post: "post \<in> {[], [Blending, Complete]}"
    by blast
  from pre post show ?thesis
    unfolding st by (auto simp add: sorted_append)
qed

lemma stitchBody_no_matching: "Matching \<notin> set (map stage (fst (stitchBody cv frames)))"
proof -
  from stitchBody_stages [of cv frames]
  obtain m1 m3 pre post where
    st: "map stage (fst (stitchBody cv frames)) =
       [Loading, Preprocessing] @ replicate m1 Preprocessing @ pre @
       replicate m3 Warping @ post"
    and pre: "pre \<in> {[], [Detecting], [Detecting, Warping]}"
    and post: "post \<in> {[], [Blending, Complete]}"
    by blast
  from pre post show ?thesis
    unfolding st by auto
qed

lemma stitchBody_visited:
  assumes "snd (stitchBody cv frames) = Inr p"
  shows "remdups_adj (map stage (fst (stitchBody cv frames))) =
    (if Stitcher cv = None
     then [Loading, Preprocessing, Detecting, Warping, Blending, Complete]
     else [Loading, Preprocessing, Detecting, Blending, Complete])"
proof -
  from stitchBody_Inr [OF assms] obtain images
    where images: "map (loadImage cv) frames = map Decoded images"
      and ok: "case Stitcher cv of None \<Rightarrow> True
        | Some stitch \<Rightarrow> fst (stitch images) = Stitcher_OK cv"
    by blast
  show ?thesis
  proof (cases "Stitcher cv")
    case None
    from concatFrames_result [of images] obtain r where "snd (concatFrames images) = Inr r"
      by blast
    from stitchBody_fallback [OF images None this]
    have "map stage (fst (stitchBody cv frames)) =
        Loading # Preprocessing # replicate (length frames) Preprocessing @
        Detecting # Warping # replicate (length frames) Warping @ [Blending, Complete]"
      by (simp add: stage_simps stages_loaded stages_placed del: map_map)
    with None show ?thesis by (simp add: remdups_adj_run)
  next
    case (Some stitch)
    with ok have "fst (stitch images) = Stitcher_OK cv" by simp
    with stitchBody_feature [OF images Some]
    have "map stage (fst (stitchBody cv frames)) =
        Loading # Preprocessing # replicate (length frames) Preprocessing @
        [Detecting, Blending, Complete]"
      by (simp add: stage_simps stages_loaded del: map_map)
    with Some show ?thesis by (simp add: remdups_adj_run)
  qed
qed

text \<open>
  C7, as stated, fails: a complete run on two frames, with the fallback, emits ten events
  and none of them has the matching stage.
\<close>

theorem stage_order_counterexample:
  "map stage (emitted (stitchFrames (exampleCv True None) [''a'', ''b''] idle)) =
     [Loading, Preprocessing, Preprocessing, Preprocessing, Detecting,
      Warping, Warping, Warping, Blending, Complete]"
proof -
  from concatFrames_result [of exampleImages]
  obtain r where "snd (concatFrames exampleImages) = Inr r" by blast
  from stitchBody_fallback [OF example_decodes _ this, of True None]
  show ?thesis
    by (simp add: stitchFrames_run example_env stage_simps upt_rec)
qed

text \<open>
  C7, amended. Within one stitch operation no emitted event's stage is earlier, in the
  order loading, preprocessing, detecting, matching, warping, blending, complete, than
  the stage of an event emitted before it, and no event has the matching stage. A run that
  returns a panorama visits, in this order, loading, preprocessing, detecting, warping,
  blending and complete when the feature stitcher is not available, and loading,
  preprocessing, detecting, blending and complete when the feature stitcher made the
  panorama.
\<close>

theorem stage_order:
  "sorted (map stageIndex (map stage (emitted (stitchFrames cv frames st)))) \<and>
   Matching \<notin> set (map stage (emitted (stitchFrames cv frames st))) \<and>
   (\<forall>p. returned (stitchFrames cv frames st) = Inr p \<longrightarrow>
      remdups_adj (map stage (emitted (stitchFrames cv frames st))) =
        (if Stitcher cv = None
         then [Loading, Preprocessing, Detecting, Warping, Blending, Complete]
         else [Loading, Preprocessing, Detecting, Blending, Complete]))"
proof (cases "isLoaded cv \<and> 2 \<le> length frames")
  case False
  from stitchFrames_guarded [OF this, of st] show ?thesis by auto
next
  case True
  then have run: "returned (stitchFrames cv frames st) = snd (stitchBody cv frames)"
    "emitted (stitchFrames cv frames st) = fst (stitchBody cv frames)"
    by (simp_all add: stitchFrames_run)
  show ?thesis
    unfolding run
    using stitchBody_sorted [of cv frames] stitchBody_no_matching [of cv frames]
      stitchBody_visited [of cv frames]
    by blast
qed

theorem stage_order_witness:
  "remdups_adj (map stage (emitted (stitchFrames (exampleCv True None) [''a'', ''b''] idle))) =
     [Loading, Preprocessing, Detecting, Warping, Blending, Complete] \<and>
   remdups_adj (map stage
       (emitted (stitchFrames (exampleCv True (Some workingStitcher)) [''a'', ''b''] idle))) =
     [Loading, Preprocessing, Detecting, Blending, Complete]"
proof -
  from concatFrames_result [of exampleImages]
  obtain r where "snd (concatFrames exampleImages) = Inr r" by blast
  from stitchBody_fallback [OF example_decodes _ this, of True None]
  have 1: "\<exists>p. returned (stitchFrames (exampleCv True None) [''a'', ''b''] idle) = Inr p"
    by (simp add: stitchFrames_run example_env example_returns)
  from stitchBody_feature [OF example_decodes, of True "Some workingStitcher" workingStitcher]
  have 2: "\<exists>p. returned (stitchFrames (exampleCv True (Some workingStitcher))
      [''a'', ''b''] idle) = Inr p"
    by (simp add: stitchFrames_run example_env workingStitcher_def example_returns)
  from 1 2 stage_order [of "exampleCv True None" "[''a'', ''b'']" idle]
    stage_order [of "exampleCv True (Some workingStitcher)" "[''a'', ''b'']" idle]
  show ?thesis by (auto simp add: example_env)
qed


lemma stitchBody_checkpoint:
  assumes "0 < length frames" and "e \<in> set (fst (stitchBody cv frames))"
  shows "checkpoint (length frames) e"
proof -
  from stitchBody_shape [of frames cv]
  obtain m1 m3 pre post where m: "m1 \<le> length frames" "m3 \<le> length frames"
    and ev: "fst (stitchBody cv frames) =
       [mkProgress Loading 0 ''Loading frames...'',
        mkProgress Preprocessing 10 ''Preprocessing frames...''] @
       map (\<lambda>k. loadedProgress k (length frames)) [0..<m1] @ pre @
       map (\<lambda>k. placedProgress k (length frames)) [0..<m3] @ post"
    and pre: "pre \<in> {[], [mkProgress Detecting 30 ''Detecting features...''],
             [mkProgress Detecting 30 ''Detecting features...'',
              mkProgress Warping 50 ''Arranging frames...'']}"
    and post: "post \<in> {[], [mkProgress Blending 80 ''Blending seams...'',
                  mkProgress Complete 100 ''Complete!'']}"
    by blast
  from assms(2) ev consider
      "e = mkProgress Loading 0 ''Loading frames...''"
    | "e = mkProgress Preprocessing 10 ''Preprocessing frames...''"
    | k where "k < m1" "e = loadedProgress k (length frames)"
    | "e \<in> set pre"
    | k where "k < m3" "e = placedProgress k (length frames)"
    | "e \<in> set post"
    by auto
  then show ?thesis
  proof cases
    case 1
    then show ?thesis by (simp add: checkpoint_fixed)
  next
    case 2
    with assms(1) show ?thesis by (simp add: checkpoint_fixed)
  next
    case 3
    with m show ?thesis by (simp add: checkpoint_loaded)
  next
    case 4
    with pre assms(1) show ?thesis by (auto simp add: checkpoint_fixed)
  next
    case 5
    with m show ?thesis by (simp add: checkpoint_placed)
  next
    case 6
    with post show ?thesis by (auto simp add: checkpoint_fixed)
  qed
qed

lemma checkpoints_simps:
  "checkpoints (xs @ ys) = checkpoints xs @ checkpoints ys"
  "checkpoints (mkProgress s p m # xs) = (s, p) # checkpoints xs"
  "checkpoints [] = []"
  "checkpoints (map (\<lambda>k. loadedProgress k n) ks) =
     map (\<lambda>k. (Preprocessing, 10 + (of_nat k / of_nat n) * 20)) ks"
  "checkpoints (map (\<lambda>k. placedProgress k n) ks) =
     map (\<lambda>k. (Warping, 50 + (of_nat k / of_nat n) * 30)) ks"
  by (simp_all add: checkpoints_def stage_simps progress_simps)

text \<open>
  C8. Every event that \<^verbatim>\<open>stitchFrames\<close> emits keeps the checkpoint contract: loading is at
  0, preprocessing at 10 plus the loaded share of 20 and between 10 and 30, detecting at
  30, warping at 50 plus the placed share of 30 and between 50 and 80, blending at 80 and
  complete at 100. A run that returns a panorama emits exactly these percentages in this
  order: with the fallback 0, 10, one value \<open>10 + (k / n) * 20\<close> for each of the \<open>n\<close>
  frames, 30, 50, one value \<open>50 + (k / n) * 30\<close> for each frame, 80 and 100; with the
  feature stitcher the same without the warping events.
\<close>

theorem checkpoint_contract:
  "(\<forall>e\<in>set (emitted (stitchFrames cv frames st)). checkpoint (length frames) e) \<and>
   (\<forall>p. returned (stitchFrames cv frames st) = Inr p \<longrightarrow>
      checkpoints (emitted (stitchFrames cv frames st)) =
        (if Stitcher cv = None then
           [(Loading, 0), (Preprocessing, 10)] @
           map (\<lambda>k. (Preprocessing, 10 + (of_nat k / of_nat (length frames)) * 20))
             [0..<length frames] @
           [(Detecting, 30), (Warping, 50)] @
           map (\<lambda>k. (Warping, 50 + (of_nat k / of_nat (length frames)) * 30))
             [0..<length frames] @
           [(Blending, 80), (Complete, 100)]
         else
           [(Loading, 0), (Preprocessing, 10)] @
           map (\<lambda>k. (Preprocessing, 10 + (of_nat k / of_nat (length frames)) * 20))
             [0..<length frames] @
           [(Detecting, 30), (Blending, 80), (Complete, 100)]))"
proof (cases "isLoaded cv \<and> 2 \<le> length frames")
  case False
  from stitchFrames_guarded [OF this, of st] show ?thesis by auto
next
  case True
  then have run: "returned (stitchFrames cv frames st) = snd (stitchBody cv frames)"
    "emitted (stitchFrames cv frames st) = fst (stitchBody cv frames)"
    by (simp_all add: stitchFrames_run)
  from True have pos: "0 < length frames" by auto
  have each: "\<forall>e\<in>set (fst (stitchBody cv frames)). checkpoint (length frames) e"
    using stitchBody_checkpoint [OF pos] by blast
  have exact: "checkpoints (fst (stitchBody cv frames)) =
        (if Stitcher cv = None then
           [(Loading, 0), (Preprocessing, 10)] @
           map (\<lambda>k. (Preprocessing, 10 + (of_nat k / of_nat (length frames)) * 20))
             [0..<length frames] @
           [(Detecting, 30), (Warping, 50)] @
           map (\<lambda>k. (Warping, 50 + (of_nat k / of_nat (length frames)) * 30))
             [0..<length frames] @
           [(Blending, 80), (Complete, 100)]
         else
           [(Loading, 0), (Preprocessing, 10)] @
           map (\<lambda>k. (Preprocessing, 10 + (of_nat k / of_nat (length frames)) * 20))
             [0..<length frames] @
           [(Detecting, 30), (Blending, 80), (Complete, 100)])"
    if p: "snd (stitchBody cv frames) = Inr p" for p
  proof -
    from stitchBody_Inr [OF p] obtain images
      where images: "map (loadImage cv) frames = map Decoded images"
        and ok: "case Stitcher cv of None \<Rightarrow> True
          | Some stitch \<Rightarrow> fst (stitch images) = Stitcher_OK cv"
      by blast
    show ?thesis
    proof (cases "Stitcher cv")
      case None
      from concatFrames_result [of images] obtain r where "snd (concatFrames images) = Inr r"
        by blast
      from stitchBody_fallback [OF images None this] None show ?thesis
        by (simp add: checkpoints_simps)
    next
      case (Some stitch)
      with ok have "fst (stitch images) = Stitcher_OK cv" by simp
      with stitchBody_feature [OF images Some] Some show ?thesis
        by (simp add: checkpoints_simps)
    qed
  qed
  from each exact show ?thesis unfolding run by blast
qed

theorem checkpoint_contract_witness:
  "checkpoints (emitted (stitchFrames (exampleCv True None) [''a'', ''b''] idle)) =
     [(Loading, 0), (Preprocessing, 10), (Preprocessing, 10), (Preprocessing, 20),
      (Detecting, 30), (Warping, 50), (Warping, 50), (Warping, 65),
      (Blending, 80), (Complete, 100)] \<and>
   list_all (checkpoint 2) (emitted (stitchFrames (exampleCv True None) [''a'', ''b''] idle))"
proof -
  from concatFrames_result [of exampleImages]
  obtain r where "snd (concatFrames exampleImages) = Inr r" by blast
  from stitchBody_fallback [OF example_decodes _ this, of True None]
  have 1: "\<exists>p. returned (stitchFrames (exampleCv True None) [''a'', ''b''] idle) = Inr p"
    by (simp add: stitchFrames_run example_env example_returns)
  have len: "length [''a'', ''b''] = 2" by simp
  from checkpoint_contract [of "exampleCv True None" "[''a'', ''b'']" idle]
  have "\<forall>e\<in>set (emitted (stitchFrames (exampleCv True None) [''a'', ''b''] idle)).
      checkpoint (length [''a'', ''b'']) e" by blast
  then have 2: "list_all (checkpoint 2)
      (emitted (stitchFrames (exampleCv True None) [''a'', ''b''] idle))"
    unfolding len by (simp only: list_all_iff)
  from 1 checkpoint_contract [of "exampleCv True None" "[''a'', ''b'']" idle]
  have "checkpoints (emitted (stitchFrames (exampleCv True None) [''a'', ''b''] idle)) =
     [(Loading, 0), (Preprocessing, 10), (Preprocessing, 10), (Preprocessing, 20),
      (Detecting, 30), (Warping, 50), (Warping, 50), (Warping, 65),
      (Blending, 80), (Complete, 100)]"
    by (auto simp add: example_env upt_rec)
  with 2 show ?thesis by blast
qed


end
